theory Spec2Isabelle
  imports Complex_Main "HOL-Library.Sublist"
begin

section \<open>JavaScript values used by the support-desk core\<close>

text \<open>
  Strings are \<^typ>\<open>string\<close>: lists of code units, read as the code points 0..255
  (ASCII and Latin-1). Counters and token budgets are \<^typ>\<open>int\<close>. An optional
  property (\<open>maxAttempts?: number\<close>) is an \<^typ>\<open>'a option\<close>, with \<open>None\<close> for
  \<open>undefined\<close>. The operators \<open>||\<close> and \<open>??\<close> differ on the falsy values \<open>0\<close>
  and \<open>''\<close>, so both are written out.
\<close>

definition orNum :: "int option \<Rightarrow> int \<Rightarrow> int" where
  \<comment> \<open>\<open>x || d\<close> on an optional number: \<open>undefined\<close> and \<open>0\<close> are falsy.\<close>
  "orNum x d = (case x of None \<Rightarrow> d | Some n \<Rightarrow> if n = 0 then d else n)"

definition orStr :: "string option \<Rightarrow> string \<Rightarrow> string" where
  \<comment> \<open>\<open>x || d\<close> on an optional string: \<open>undefined\<close> and \<open>''\<close> are falsy.\<close>
  "orStr x d = (case x of None \<Rightarrow> d | Some s \<Rightarrow> if s = [] then d else s)"

definition truthyStr :: "string option \<Rightarrow> bool" where
  \<comment> \<open>\<open>if (x)\<close> on an optional string.\<close>
  "truthyStr x = (case x of None \<Rightarrow> False | Some s \<Rightarrow> s \<noteq> [])"

definition nullishBool :: "bool option \<Rightarrow> bool \<Rightarrow> bool" where
  \<comment> \<open>\<open>x ?? d\<close> on an optional boolean: only \<open>undefined\<close> takes the default.\<close>
  "nullishBool x d = (case x of None \<Rightarrow> d | Some b \<Rightarrow> b)"

fun showNat :: "nat \<Rightarrow> string" where
  "showNat n =
     (if n < 10 then [''0123456789'' ! n]
      else showNat (n div 10) @ [''0123456789'' ! (n mod 10)])"

datatype error = Error string

definition nthOpt :: "'a list \<Rightarrow> nat \<Rightarrow> 'a option" where
  \<comment> \<open>\<open>xs[i]\<close>: \<open>undefined\<close> out of range.\<close>
  "nthOpt xs i = (if i < length xs then Some (xs ! i) else None)"

text \<open>
  \<open>Array.prototype.sort\<close> with a comparator is stable. It is modelled as insertion
  into the sorted rest; \<open>le a b\<close> stands for \<open>compare(a, b) \<le> 0\<close>.
\<close>

fun insertBy :: "('a \<Rightarrow> 'a \<Rightarrow> bool) \<Rightarrow> 'a \<Rightarrow> 'a list \<Rightarrow> 'a list" where
  "insertBy le x [] = [x]"
| "insertBy le x (y # ys) = (if le x y then x # y # ys else y # insertBy le x ys)"

definition sortBy :: "('a \<Rightarrow> 'a \<Rightarrow> bool) \<Rightarrow> 'a list \<Rightarrow> 'a list" where
  "sortBy le xs = foldr (insertBy le) xs []"

section \<open>Playbook engine (src/lib/playbooks/engine.ts, playbook types)\<close>

record PlaybookStep =
  step_id :: string
  step_title :: string
  step_instruction :: string
  step_expectedOutcome :: "string option"
  step_failureHint :: "string option"
  step_nextOnSuccess :: "string option"
  step_nextOnFailure :: "string option"
  step_escalateOnFailure :: "bool option"
  step_requiresConfirmation :: "bool option"
  step_maxAttempts :: "int option"
  step_timeout :: "int option"

record PlaybookTrigger =
  trg_keywords :: "string list option"
  trg_categories :: "string list option"
  trg_products :: "string list option"

record PlaybookMetadata =
  meta_id :: string
  meta_name :: string
  meta_version :: string
  meta_product :: string
  meta_category :: string
  meta_language :: string

record Playbook =
  pb_metadata :: PlaybookMetadata
  pb_triggers :: PlaybookTrigger
  pb_steps :: "PlaybookStep list"
  pb_defaultMessage :: string
  pb_conditions :: "(string \<times> string) list"
  pb_variables :: "(string \<times> string) list option"

datatype ExecOutcome = resolved | escalated | in_progress

text \<open>
  \<open>stepAttempts\<close> is a plain object (\<open>{}\<close> in \<open>createExecutionState\<close>) read and written by
  step id, so a read also finds what every object inherits from \<open>Object.prototype\<close>.
  Its own properties are numbers by type; a count is a whole number that is a double,
  and \<open>+ 1\<close> rounds as doubles do (to the nearest double, a tie to the even one), so
  that \<open>2^53 + 1\<close> is \<open>2^53\<close>. When the step id names an inherited member, \<open>+ 1\<close>
  appends the digit to the text of that member, and the text is what is stored;
  \<open>Inherited name k\<close> stands for the member \<open>name\<close> when \<open>k = 0\<close> and for its text
  followed by \<open>k\<close> digits \<open>1\<close> otherwise. Such a value is truthy and is not a number.
\<close>

datatype StoredAttempts = Number int | Inherited string nat

definition objectPrototypeNames :: "string list" where
  \<comment> \<open>\<open>Object.getOwnPropertyNames(Object.prototype)\<close>\<close>
  "objectPrototypeNames =
     [''constructor'', ''__defineGetter__'', ''__defineSetter__'', ''hasOwnProperty'',
      ''__lookupGetter__'', ''__lookupSetter__'', ''isPrototypeOf'', ''propertyIsEnumerable'',
      ''toString'', ''valueOf'', ''__proto__'', ''toLocaleString'']"

definition readAttempts :: "(string \<rightharpoonup> StoredAttempts) \<Rightarrow> string \<Rightarrow> StoredAttempts option" where
  \<comment> \<open>\<open>stepAttempts[id]\<close>: the own property, else the inherited member, else
      \<open>undefined\<close>.\<close>
  "readAttempts own key =
     (case own key of
        Some v \<Rightarrow> Some v
      | None \<Rightarrow> if key \<in> set objectPrototypeNames then Some (Inherited key 0) else None)"

definition writeAttempts ::
  "(string \<rightharpoonup> StoredAttempts) \<Rightarrow> string \<Rightarrow> StoredAttempts \<Rightarrow> (string \<rightharpoonup> StoredAttempts)" where
  \<comment> \<open>\<open>stepAttempts[id] = attempts\<close>: an own property is set or created, except that
      the inherited setter of \<open>__proto__\<close> drops a number or a string.\<close>
  "writeAttempts own key v =
     (if own key = None \<and> key = ''__proto__'' then own else own(key \<mapsto> v))"

function bitLength :: "int \<Rightarrow> nat" where
  \<comment> \<open>The number of binary digits of a positive whole number.\<close>
  "bitLength n = (if n \<le> 0 then 0 else Suc (bitLength (n div 2)))"
  by pat_completeness auto
termination
  by (relation "measure nat") auto

definition roundToDouble :: "int \<Rightarrow> int" where
  \<comment> \<open>The double nearest to a whole number (below \<open>2^1024\<close>): 53 significant bits are
      kept, and a tie goes to the even one.\<close>
  "roundToDouble x =
     (if \<bar>x\<bar> \<le> 2 ^ 53 then x
      else
        let u = 2 ^ (bitLength \<bar>x\<bar> - 53);
            q = \<bar>x\<bar> div u;
            r = \<bar>x\<bar> mod u;
            q' = (if 2 * r > u \<or> (2 * r = u \<and> odd q) then q + 1 else q)
        in sgn x * (q' * u))"

definition addOne :: "int \<Rightarrow> int" where
  \<comment> \<open>\<open>n + 1\<close> on a whole-number double.\<close>
  "addOne n = roundToDouble (n + 1)"

function digitsOf :: "int \<Rightarrow> string" where
  \<comment> \<open>The decimal digits of a whole number that is not negative.\<close>
  "digitsOf n =
     (if n < 10 then [''0123456789'' ! nat n]
      else digitsOf (n div 10) @ [''0123456789'' ! nat (n mod 10)])"
  by pat_completeness auto
termination
  by (relation "measure nat") auto

declare bitLength.simps [simp del]

declare digitsOf.simps [simp del]

definition stripZeros :: "string \<Rightarrow> string" where
  "stripZeros digits = rev (dropWhile (\<lambda>c. c = CHR ''0'') (rev digits))"

definition shortest :: "int \<Rightarrow> int" where
  \<comment> \<open>The whole number of fewest significant digits that reads back as the positive
      double \<open>x\<close>; of two with as many digits, the nearer to \<open>x\<close>.\<close>
  "shortest x =
     (let n = length (digitsOf x);
          candidates =
            (\<lambda>k. let p = 10 ^ (n - k)
                  in filter (\<lambda>v. roundToDouble v = x) [x div p * p, (x div p + 1) * p])
      in case filter (\<lambda>vs. vs \<noteq> []) (map candidates [1..<min n 17 + 1]) of
           [] \<Rightarrow> x
         | vs # _ \<Rightarrow>
             (case vs of
                [v] \<Rightarrow> v
              | v # w # _ \<Rightarrow> if x - v \<le> w - x then v else w
              | [] \<Rightarrow> x))"

definition numberToString :: "int \<Rightarrow> string" where
  \<comment> \<open>Template interpolation \<open>${n}\<close> of a whole-number double: its digits up to
      \<open>2^53\<close>; above, the fewest digits that read back as the same double, followed by
      zeros, or with an exponent from \<open>10^21\<close> on.\<close>
  "numberToString i =
     (let digits = (if \<bar>i\<bar> \<le> 2 ^ 53 then digitsOf \<bar>i\<bar> else digitsOf (shortest \<bar>i\<bar>));
          s = stripZeros digits;
          body =
            (if length digits \<le> 21 then digits
             else take 1 s @ (if length s > 1 then CHR ''.'' # drop 1 s else [])
                  @ ''e+'' @ showNat (length digits - 1))
      in if i < 0 then CHR ''-'' # body else body)"

definition memberText :: "string \<Rightarrow> string" where
  \<comment> \<open>What \<open>+\<close> makes of an inherited member: the source text of a built-in function
      as V8 prints it, and \<open>[object Object]\<close> for the prototype that \<open>__proto__\<close> reads.\<close>
  "memberText name =
     (if name = ''__proto__'' then ''[object Object]''
      else ''function '' @ (if name = ''constructor'' then ''Object'' else name)
           @ ''() { [native code] }'')"

definition attemptsText :: "StoredAttempts \<Rightarrow> string" where
  \<comment> \<open>\<open>${attempts}\<close>\<close>
  "attemptsText attempts =
     (case attempts of
        Number a \<Rightarrow> numberToString a
      | Inherited name k \<Rightarrow> memberText name @ replicate k CHR ''1'')"

record PlaybookExecutionState =
  st_playbookId :: string
  st_currentStepId :: string
  st_stepAttempts :: "string \<rightharpoonup> StoredAttempts"
  st_completedSteps :: "string list"
  st_failedSteps :: "string list"
  st_startedAt :: nat
  st_lastUpdatedAt :: nat
  st_variables :: "(string \<times> string) list"
  st_outcome :: "ExecOutcome option"

datatype StepOutcome = success | failure

datatype ResultOutcome = r_success | r_failure | r_skipped | r_timeout

record PlaybookExecutionResult =
  res_success :: bool
  res_stepId :: string
  res_stepTitle :: string
  res_outcome :: ResultOutcome
  res_message :: string
  res_nextStepId :: "string option"
  res_shouldEscalate :: bool
  res_escalationReason :: "string option"

definition createExecutionState :: "nat \<Rightarrow> Playbook \<Rightarrow> PlaybookExecutionState" where
  \<comment> \<open>The clock reading \<open>new Date()\<close> is the first argument.\<close>
  "createExecutionState now playbook =
     \<lparr> st_playbookId = meta_id (pb_metadata playbook),
       st_currentStepId = (case pb_steps playbook of [] \<Rightarrow> [] | s # _ \<Rightarrow> step_id s),
       st_stepAttempts = Map.empty,
       st_completedSteps = [],
       st_failedSteps = [],
       st_startedAt = now,
       st_lastUpdatedAt = now,
       st_variables = (case pb_variables playbook of None \<Rightarrow> [] | Some vs \<Rightarrow> vs),
       st_outcome = Some in_progress \<rparr>"

definition getCurrentStep :: "Playbook \<Rightarrow> PlaybookExecutionState \<Rightarrow> PlaybookStep option" where
  "getCurrentStep playbook state =
     find (\<lambda>s. step_id s = st_currentStepId state) (pb_steps playbook)"

definition attemptsAfter :: "PlaybookExecutionState \<Rightarrow> PlaybookStep \<Rightarrow> StoredAttempts" where
  \<comment> \<open>\<open>(state.stepAttempts[step.id] || 0) + 1\<close>: \<open>undefined\<close> and \<open>0\<close> are falsy.\<close>
  "attemptsAfter state step =
     (case readAttempts (st_stepAttempts state) (step_id step) of
        None \<Rightarrow> Number 1
      | Some (Number n) \<Rightarrow> Number (addOne n)
      | Some (Inherited name k) \<Rightarrow> Inherited name (k + 1))"

definition maxAttemptsOf :: "PlaybookStep \<Rightarrow> int" where
  \<comment> \<open>\<open>step.maxAttempts || 3\<close>\<close>
  "maxAttemptsOf step = orNum (step_maxAttempts step) 3"

definition exceeds :: "StoredAttempts \<Rightarrow> int \<Rightarrow> bool" where
  \<comment> \<open>\<open>attempts > maxAttempts\<close>: a text that is not a number compares as \<open>NaN\<close>.\<close>
  "exceeds attempts maxAttempts =
     (case attempts of Number a \<Rightarrow> a > maxAttempts | Inherited name k \<Rightarrow> False)"

definition executeStep ::
  "nat \<Rightarrow> Playbook \<Rightarrow> PlaybookExecutionState \<Rightarrow> StepOutcome
     \<Rightarrow> PlaybookExecutionResult \<times> PlaybookExecutionState" where
  \<comment> \<open>The source mutates \<open>state\<close> in place; the updated state is the second component.\<close>
  "executeStep now playbook state stepOutcome =
     (case getCurrentStep playbook state of
        None \<Rightarrow>
          (\<lparr> res_success = False, res_stepId = st_currentStepId state,
             res_stepTitle = ''Unknown'', res_outcome = r_failure,
             res_message = ''Step not found'', res_nextStepId = None,
             res_shouldEscalate = True,
             res_escalationReason = Some ''Playbook step not found'' \<rparr>, state)
      | Some step \<Rightarrow>
          let attempts = attemptsAfter state step;
              state1 = state\<lparr> st_stepAttempts :=
                                writeAttempts (st_stepAttempts state) (step_id step) attempts,
                              st_lastUpdatedAt := now \<rparr>;
              maxAttempts = maxAttemptsOf step
          in
          if exceeds attempts maxAttempts \<and> stepOutcome = failure then
            (\<lparr> res_success = False, res_stepId = step_id step,
               res_stepTitle = step_title step, res_outcome = r_failure,
               res_message = ''Step failed after '' @ attemptsText attempts @ '' attempts: ''
                  @ orStr (step_failureHint step) ''Unable to complete step'',
               res_nextStepId = None,
               res_shouldEscalate = nullishBool (step_escalateOnFailure step) True,
               res_escalationReason =
                  Some (''Max attempts exceeded for step: '' @ step_title step) \<rparr>,
             state1\<lparr> st_failedSteps := st_failedSteps state1 @ [step_id step] \<rparr>)
          else if stepOutcome = success then
            (\<lparr> res_success = True, res_stepId = step_id step,
               res_stepTitle = step_title step, res_outcome = r_success,
               res_message = orStr (step_expectedOutcome step) ''Step completed successfully'',
               res_nextStepId = step_nextOnSuccess step,
               res_shouldEscalate = False,
               res_escalationReason = None \<rparr>,
             let state2 = state1\<lparr> st_completedSteps := st_completedSteps state1 @ [step_id step] \<rparr>
             in case step_nextOnSuccess step of
                  Some nextStepId \<Rightarrow>
                    if nextStepId \<noteq> [] then state2\<lparr> st_currentStepId := nextStepId \<rparr>
                    else state2\<lparr> st_outcome := Some resolved \<rparr>
                | None \<Rightarrow> state2\<lparr> st_outcome := Some resolved \<rparr>)
          else
            (\<lparr> res_success = False, res_stepId = step_id step,
               res_stepTitle = step_title step, res_outcome = r_failure,
               res_message = orStr (step_failureHint step) ''Step did not complete as expected'',
               res_nextStepId = step_nextOnFailure step,
               res_shouldEscalate = False,
               res_escalationReason = None \<rparr>,
             case step_nextOnFailure step of
               Some nextOnFailure \<Rightarrow>
                 if nextOnFailure \<noteq> [] then state1\<lparr> st_currentStepId := nextOnFailure \<rparr>
                 else state1
             | None \<Rightarrow> state1))"

definition isPlaybookComplete :: "PlaybookExecutionState \<Rightarrow> bool" where
  "isPlaybookComplete state =
     (st_outcome state = Some resolved \<or> st_outcome state = Some escalated)"

section \<open>Embedding and similarity service (src/lib/knowledge-base/embeddings.ts)\<close>

text \<open>
  The embedding provider is an external collaborator: \<open>embeddings_create\<close> stands for
  \<open>client.embeddings.create\<close> and returns the embeddings of \<open>response.data\<close> in the
  order the provider sent them, or the error it threw. The type \<open>'e\<close> of an embedding
  is left open. The progress callback and the delay between batches do not touch the
  result and are left out.
\<close>

record 'e EmbeddingResult =
  er_text :: "string option"
  er_embedding :: 'e
  er_index :: "nat option"

record 'e EmbeddingEnv =
  OPENAI_API_KEY :: "string option"
  embeddings_create :: "string list \<Rightarrow> error + 'e list"

definition MAX_BATCH_SIZE :: nat where
  "MAX_BATCH_SIZE = 100"

definition getOpenAIClient ::
  "('e, 'x) EmbeddingEnv_scheme \<Rightarrow> error + (string list \<Rightarrow> error + 'e list)" where
  "getOpenAIClient env =
     (if truthyStr (OPENAI_API_KEY env) then Inr (embeddings_create env)
      else Inl (Error ''OPENAI_API_KEY environment variable is not set''))"

definition generateEmbedding :: "('e, 'x) EmbeddingEnv_scheme \<Rightarrow> string \<Rightarrow> error + 'e" where
  \<comment> \<open>\<open>response.data[0].embedding\<close>: reading a field of \<open>undefined\<close> throws.\<close>
  "generateEmbedding env text =
     (case getOpenAIClient env of
        Inl e \<Rightarrow> Inl e
      | Inr client \<Rightarrow>
          (case client [text] of
             Inl e \<Rightarrow> Inl e
           | Inr [] \<Rightarrow> Inl (Error ''TypeError: Cannot read properties of undefined'')
           | Inr (d # _) \<Rightarrow> Inr d))"

definition batchResults :: "string list \<Rightarrow> nat list \<Rightarrow> 'e list \<Rightarrow> 'e EmbeddingResult list" where
  \<comment> \<open>The inner loop over \<open>j < response.data.length\<close>; \<open>batch[j]\<close> and
      \<open>batchIndices[j]\<close> are \<open>undefined\<close> past the batch.\<close>
  "batchResults batch batchIndices dat =
     map (\<lambda>j. \<lparr> er_text = nthOpt batch j, er_embedding = dat ! j,
                 er_index = nthOpt batchIndices j \<rparr>) [0..<length dat]"

function embedBatches ::
  "(string list \<Rightarrow> error + 'e list) \<Rightarrow> string list \<Rightarrow> nat \<Rightarrow> 'e EmbeddingResult list
     \<Rightarrow> string list list \<times> (error + 'e EmbeddingResult list)" where
  \<comment> \<open>The loop over the batches, from offset \<open>i\<close> on. The first component holds the
      \<open>input\<close> of every \<open>client.embeddings.create\<close> call made, in order; an error of the
      provider is thrown on, after its call.\<close>
  "embedBatches client texts i results =
     (if i < length texts then
        let batch = take MAX_BATCH_SIZE (drop i texts);
            batchIndices = map (\<lambda>idx. i + idx) [0..<length batch]
        in case client batch of
             Inl e \<Rightarrow> ([batch], Inl e)
           | Inr dat \<Rightarrow>
               (case embedBatches client texts (i + MAX_BATCH_SIZE)
                       (results @ batchResults batch batchIndices dat) of
                  (calls, outcome) \<Rightarrow> (batch # calls, outcome))
      else ([], Inr results))"
  by pat_completeness auto
termination
  by (relation "measure (\<lambda>(client, texts, i, results). length texts - i)")
     (auto simp: MAX_BATCH_SIZE_def)

definition indexLe :: "'e EmbeddingResult \<Rightarrow> 'e EmbeddingResult \<Rightarrow> bool" where
  \<comment> \<open>\<open>a.index - b.index \<le> 0\<close>; with an \<open>undefined\<close> index the difference is \<open>NaN\<close>,
      which \<open>sort\<close> reads as \<open>0\<close>.\<close>
  "indexLe a b = (case (er_index a, er_index b) of
                    (Some i, Some j) \<Rightarrow> i \<le> j
                  | _ \<Rightarrow> True)"

definition generateEmbeddings ::
  "('e, 'x) EmbeddingEnv_scheme \<Rightarrow> string list
     \<Rightarrow> string list list \<times> (error + 'e EmbeddingResult list)" where
  \<comment> \<open>The batches sent to the provider, and the sorted results or the error thrown.\<close>
  "generateEmbeddings env texts =
     (case getOpenAIClient env of
        Inl e \<Rightarrow> ([], Inl e)
      | Inr client \<Rightarrow>
          (case embedBatches client texts 0 [] of
             (calls, Inl e) \<Rightarrow> (calls, Inl e)
           | (calls, Inr results) \<Rightarrow> (calls, Inr (sortBy indexLe results))))"

definition batchAt :: "string list \<Rightarrow> nat \<Rightarrow> string list" where
  \<comment> \<open>The \<open>k\<close>-th run of \<open>MAX_BATCH_SIZE\<close> texts: \<open>texts.slice(100 k, 100 k + 100)\<close>.\<close>
  "batchAt texts k = take MAX_BATCH_SIZE (drop (k * MAX_BATCH_SIZE) texts)"

definition embedded ::
  "(string list \<Rightarrow> error + 'e list) \<Rightarrow> string list \<Rightarrow> 'e EmbeddingResult list \<Rightarrow> bool" where
  \<comment> \<open>Result \<open>k\<close> carries index \<open>k\<close>, text \<open>texts[k]\<close> and the embedding that the
      provider returned for that text: entry \<open>k mod 100\<close> of its answer to batch
      \<open>k div 100\<close>.\<close>
  "embedded client texts rs =
     (\<forall>k < length rs.
        er_index (rs ! k) = Some k \<and> er_text (rs ! k) = nthOpt texts k
        \<and> (\<exists>dat. client (batchAt texts (k div MAX_BATCH_SIZE)) = Inr dat
                  \<and> k mod MAX_BATCH_SIZE < length dat
                  \<and> er_embedding (rs ! k) = dat ! (k mod MAX_BATCH_SIZE)))"

definition answersBatches :: "(string list \<Rightarrow> error + 'e list) \<Rightarrow> bool" where
  \<comment> \<open>The assumption of claim C9 on the provider: a batch of one to
      \<open>MAX_BATCH_SIZE\<close> inputs is answered with one embedding per input.\<close>
  "answersBatches client =
     (\<forall>batch. batch \<noteq> [] \<and> length batch \<le> MAX_BATCH_SIZE
        \<longrightarrow> (\<exists>dat. client batch = Inr dat \<and> length dat = length batch))"

text \<open>
  Numbers of \<open>cosineSimilarity\<close>: a finite value, an infinity or \<open>NaN\<close>. Finite
  arithmetic is exact (no rounding, no overflow); the special values follow IEEE 754,
  so that a division by zero yields an infinity or \<open>NaN\<close> and not a number. The two
  zeros are one value.
\<close>

datatype number = Num real | PosInfinity | NegInfinity | NaN

definition infinityOfSign :: "real \<Rightarrow> number" where
  "infinityOfSign s = (if s = 0 then NaN else if 0 < s then PosInfinity else NegInfinity)"

fun numAdd :: "number \<Rightarrow> number \<Rightarrow> number" where
  "numAdd (Num a) (Num b) = Num (a + b)"
| "numAdd NaN _ = NaN"
| "numAdd _ NaN = NaN"
| "numAdd PosInfinity NegInfinity = NaN"
| "numAdd NegInfinity PosInfinity = NaN"
| "numAdd PosInfinity _ = PosInfinity"
| "numAdd NegInfinity _ = NegInfinity"
| "numAdd _ PosInfinity = PosInfinity"
| "numAdd _ NegInfinity = NegInfinity"

fun numMul :: "number \<Rightarrow> number \<Rightarrow> number" where
  "numMul (Num a) (Num b) = Num (a * b)"
| "numMul NaN _ = NaN"
| "numMul _ NaN = NaN"
| "numMul (Num a) PosInfinity = infinityOfSign a"
| "numMul (Num a) NegInfinity = infinityOfSign (- a)"
| "numMul PosInfinity (Num b) = infinityOfSign b"
| "numMul NegInfinity (Num b) = infinityOfSign (- b)"
| "numMul PosInfinity PosInfinity = PosInfinity"
| "numMul NegInfinity NegInfinity = PosInfinity"
| "numMul PosInfinity NegInfinity = NegInfinity"
| "numMul NegInfinity PosInfinity = NegInfinity"

fun numSqrt :: "number \<Rightarrow> number" where
  "numSqrt (Num a) = (if a < 0 then NaN else Num (sqrt a))"
| "numSqrt PosInfinity = PosInfinity"
| "numSqrt NegInfinity = NaN"
| "numSqrt NaN = NaN"

fun numDiv :: "number \<Rightarrow> number \<Rightarrow> number" where
  "numDiv (Num a) (Num b) = (if b = 0 then infinityOfSign a else Num (a / b))"
| "numDiv NaN _ = NaN"
| "numDiv _ NaN = NaN"
| "numDiv (Num a) _ = Num 0"
| "numDiv PosInfinity (Num b) = (if b < 0 then NegInfinity else PosInfinity)"
| "numDiv NegInfinity (Num b) = (if b < 0 then PosInfinity else NegInfinity)"
| "numDiv _ _ = NaN"

fun cosineLoop ::
  "number list \<Rightarrow> number list \<Rightarrow> number \<times> number \<times> number \<Rightarrow> number \<times> number \<times> number" where
  \<comment> \<open>The loop over \<open>i < a.length\<close>, on vectors of one length.\<close>
  "cosineLoop (x # xs) (y # ys) (dotProduct, normA, normB) =
     cosineLoop xs ys
       (numAdd dotProduct (numMul x y), numAdd normA (numMul x x), numAdd normB (numMul y y))"
| "cosineLoop _ _ acc = acc"

definition cosineSimilarity :: "number list \<Rightarrow> number list \<Rightarrow> error + number" where
  "cosineSimilarity a b =
     (if length a \<noteq> length b then Inl (Error ''Vectors must have the same length'')
      else
        case cosineLoop a b (Num 0, Num 0, Num 0) of
          (dotProduct, sumA, sumB) \<Rightarrow>
            let normA = numSqrt sumA; normB = numSqrt sumB
            in if normA = Num 0 \<or> normB = Num 0 then Inr (Num 0)
               else Inr (numDiv dotProduct (numMul normA normB)))"

definition sumSquares :: "number list \<Rightarrow> number" where
  \<comment> \<open>What the loop accumulates in \<open>normA\<close> and in \<open>normB\<close>.\<close>
  "sumSquares v = foldl (\<lambda>s x. numAdd s (numMul x x)) (Num 0) v"

definition vectorNorm :: "number list \<Rightarrow> number" where
  "vectorNorm v = numSqrt (sumSquares v)"

section \<open>Retrieval engine (src/lib/knowledge-base/retrieval.ts, src/lib/pinecone.ts)\<close>

text \<open>
  Scores are finite numbers, modelled as \<^typ>\<open>real\<close>: only their order is used. The
  default \<open>minScore\<close> is the double nearest to \<open>0.7\<close>. The vector index is an external
  collaborator: \<open>namespace_query\<close> stands for \<open>index.namespace(tenantId).query\<close>.
\<close>

record VectorMetadata =
  vm_tenantId :: string
  vm_kbId :: string
  vm_docId :: string
  vm_product :: string
  vm_chunkIndex :: int
  vm_content :: string
  vm_language :: string

record RawMatch =
  raw_id :: string
  raw_score :: "real option"
  raw_metadata :: "VectorMetadata option"

record ScoredMatch =
  sm_id :: string
  sm_score :: real
  sm_metadata :: "VectorMetadata option"

record MetadataFilter =
  flt_product :: "string option"
  flt_kbId :: "string option"
  flt_language :: "string option"

record 'e QueryRequest =
  q_vector :: 'e
  q_topK :: int
  q_filter :: "MetadataFilter option"
  q_includeMetadata :: bool

record 'e RetrievalEnv = "'e EmbeddingEnv" +
  PINECONE_API_KEY :: "string option"
  namespace_query :: "string \<Rightarrow> 'e QueryRequest \<Rightarrow> error + RawMatch list option"

record QueryOptions =
  qo_topK :: "int option"
  qo_filter :: "MetadataFilter option"
  qo_includeMetadata :: "bool option"

definition queryVectors ::
  "('e, 'x) RetrievalEnv_scheme \<Rightarrow> string \<Rightarrow> 'e \<Rightarrow> QueryOptions \<Rightarrow> error + ScoredMatch list" where
  "queryVectors env tenantId queryVector options =
     (if \<not> truthyStr (PINECONE_API_KEY env)
      then Inl (Error ''PINECONE_API_KEY environment variable is not set'')
      else
        case namespace_query env tenantId
               \<lparr> q_vector = queryVector,
                 q_topK = orNum (qo_topK options) 5,
                 q_filter = qo_filter options,
                 q_includeMetadata = nullishBool (qo_includeMetadata options) True \<rparr> of
          Inl e \<Rightarrow> Inl e
        | Inr matches \<Rightarrow>
            Inr (map (\<lambda>m. \<lparr> sm_id = raw_id m,
                             sm_score = (case raw_score m of None \<Rightarrow> 0 | Some s \<Rightarrow> s),
                             sm_metadata = raw_metadata m \<rparr>)
                     (case matches of None \<Rightarrow> [] | Some ms \<Rightarrow> ms)))"

record RetrievalMeta =
  rm_kbId :: string
  rm_docId :: string
  rm_product :: string
  rm_chunkIndex :: int
  rm_language :: string

record RetrievalResult =
  rr_content :: string
  rr_score :: real
  rr_metadata :: RetrievalMeta

record RetrievalOptions =
  ro_topK :: "int option"
  ro_minScore :: "real option"
  ro_product :: "string option"
  ro_kbId :: "string option"
  ro_language :: "string option"

definition DEFAULT_MIN_SCORE :: real where
  \<comment> \<open>The double that the literal \<open>0.7\<close> denotes.\<close>
  "DEFAULT_MIN_SCORE = 3152519739159347 / 4503599627370496"

definition minScoreOf :: "RetrievalOptions \<Rightarrow> real" where
  "minScoreOf options = (case ro_minScore options of None \<Rightarrow> DEFAULT_MIN_SCORE | Some s \<Rightarrow> s)"

definition truthyOnly :: "string option \<Rightarrow> string option" where
  \<comment> \<open>\<open>if (x) filter.x = { $eq: x }\<close>\<close>
  "truthyOnly x = (if truthyStr x then x else None)"

definition buildFilter :: "RetrievalOptions \<Rightarrow> MetadataFilter option" where
  \<comment> \<open>\<open>Object.keys(filter).length > 0 ? filter : undefined\<close>\<close>
  "buildFilter options =
     (let flt = \<lparr> flt_product = truthyOnly (ro_product options),
                   flt_kbId = truthyOnly (ro_kbId options),
                   flt_language = truthyOnly (ro_language options) \<rparr>
      in if flt_product flt = None \<and> flt_kbId flt = None \<and> flt_language flt = None
         then None else Some flt)"

definition formatResult :: "ScoredMatch \<Rightarrow> RetrievalResult" where
  "formatResult result =
     \<lparr> rr_content = orStr (map_option vm_content (sm_metadata result)) [],
       rr_score = sm_score result,
       rr_metadata =
         \<lparr> rm_kbId = orStr (map_option vm_kbId (sm_metadata result)) [],
           rm_docId = orStr (map_option vm_docId (sm_metadata result)) [],
           rm_product = orStr (map_option vm_product (sm_metadata result)) [],
           rm_chunkIndex = orNum (map_option vm_chunkIndex (sm_metadata result)) 0,
           rm_language = orStr (map_option vm_language (sm_metadata result)) ''en'' \<rparr> \<rparr>"

definition retrieveRelevantChunks ::
  "('e, 'x) RetrievalEnv_scheme \<Rightarrow> string \<Rightarrow> string \<Rightarrow> RetrievalOptions
     \<Rightarrow> error + RetrievalResult list" where
  "retrieveRelevantChunks env tenantId query options =
     (let topK = (case ro_topK options of None \<Rightarrow> 5 | Some k \<Rightarrow> k);
          minScore = minScoreOf options
      in case generateEmbedding env query of
           Inl e \<Rightarrow> Inl e
         | Inr queryEmbedding \<Rightarrow>
             (case queryVectors env tenantId queryEmbedding
                     \<lparr> qo_topK = Some topK, qo_filter = buildFilter options,
                       qo_includeMetadata = Some True \<rparr> of
                Inl e \<Rightarrow> Inl e
              | Inr results \<Rightarrow>
                  Inr (map formatResult (filter (\<lambda>result. sm_score result \<ge> minScore) results))))"

definition estimateTokens :: "string \<Rightarrow> int" where
  \<comment> \<open>\<open>Math.ceil(text.length / 4)\<close>\<close>
  "estimateTokens text = (int (length text) + 3) div 4"

definition isJsSpace :: "char \<Rightarrow> bool" where
  \<comment> \<open>White space and line terminators among the code points 0..255.\<close>
  "isJsSpace c = (of_char c \<in> {9, 10, 11, 12, 13, 32, 160 :: nat})"

definition trim :: "string \<Rightarrow> string" where
  "trim s = rev (dropWhile isJsSpace (rev (dropWhile isJsSpace s)))"

definition sliceTo :: "string \<Rightarrow> int \<Rightarrow> string" where
  \<comment> \<open>\<open>s.slice(0, e)\<close>: a negative end counts from the end of the string.\<close>
  "sliceTo s e = (if e < 0 then take (nat (int (length s) + e)) s else take (nat e) s)"

definition chunkDelimiter :: string where
  "chunkDelimiter = ''\<newline>---\<newline>''"

fun assembleLoop :: "RetrievalResult list \<Rightarrow> int \<Rightarrow> string \<Rightarrow> int \<Rightarrow> string" where
  \<comment> \<open>The \<open>for\<close> loop over the sorted chunks, with \<open>context\<close> and \<open>totalTokens\<close>.\<close>
  "assembleLoop [] maxTokens context totalTokens = context"
| "assembleLoop (chunk # rest) maxTokens context totalTokens =
     (let chunkTokens = estimateTokens (rr_content chunk) in
      if totalTokens + chunkTokens > maxTokens then
        let remainingTokens = maxTokens - totalTokens;
            truncatedContent = sliceTo (rr_content chunk) (remainingTokens * 4)
        in if length truncatedContent > 100
           then context @ chunkDelimiter @ truncatedContent @ ''...''
           else context
      else assembleLoop rest maxTokens
             (context @ chunkDelimiter @ rr_content chunk) (totalTokens + chunkTokens))"

definition scoreDesc :: "RetrievalResult \<Rightarrow> RetrievalResult \<Rightarrow> bool" where
  \<comment> \<open>\<open>b.score - a.score \<le> 0\<close>\<close>
  "scoreDesc a b = (rr_score b - rr_score a \<le> 0)"

definition assembleContext :: "RetrievalResult list \<Rightarrow> int \<Rightarrow> string" where
  "assembleContext chunks maxTokens =
     (if chunks = [] then []
      else trim (assembleLoop (sortBy scoreDesc chunks) maxTokens [] 0))"

definition DEFAULT_CONTEXT_TOKENS :: int where
  \<comment> \<open>The default of \<open>maxTokens\<close>.\<close>
  "DEFAULT_CONTEXT_TOKENS = 2000"

section \<open>Strings and regular expressions of the guardrails and the chunker\<close>

text \<open>
  The string methods the code calls, on code points 0..255. \<open>toLowerCase\<close> maps
  \<open>A-Z\<close> and the Latin-1 capitals; \<open>includes\<close> looks for a contiguous occurrence;
  \<open>replace\<close> with a string pattern replaces the first occurrence (the replacement
  texts of the code hold no \<open>$\<close>).
\<close>

definition codeOf :: "char \<Rightarrow> int" where
  "codeOf c = of_char c"

definition codes :: "string \<Rightarrow> int list" where
  "codes s = map codeOf s"

definition between :: "int \<Rightarrow> int \<Rightarrow> int \<Rightarrow> bool" where
  "between lo hi n = (lo \<le> n \<and> n \<le> hi)"

definition toLowerCode :: "int \<Rightarrow> int" where
  \<comment> \<open>\<open>A-Z\<close> and the Latin-1 capitals \<open>0xC0-0xDE\<close> without the sign \<open>0xD7\<close>.\<close>
  "toLowerCode n = (if between 65 90 n \<or> (between 192 222 n \<and> n \<noteq> 215) then n + 32 else n)"

definition toUpperCode :: "int \<Rightarrow> int" where
  \<comment> \<open>Only the code points whose capital is one code point in 0..255.\<close>
  "toUpperCode n = (if between 97 122 n \<or> (between 224 254 n \<and> n \<noteq> 247) then n - 32 else n)"

definition toLowerChar :: "char \<Rightarrow> char" where
  \<comment> \<open>The ASCII letters are looked up first; adding 32 to a capital sets bit 5.\<close>
  "toLowerChar c =
     (if c \<in> set ''ABCDEFGHIJKLMNOPQRSTUVWXYZ''
      then Char (digit0 c) (digit1 c) (digit2 c) (digit3 c) (digit4 c) True (digit6 c) (digit7 c)
      else if digit7 c then char_of (toLowerCode (codeOf c))
      else c)"

definition toLowerCase :: "string \<Rightarrow> string" where
  "toLowerCase s = map toLowerChar s"

fun includesStr :: "string \<Rightarrow> string \<Rightarrow> bool" where
  \<comment> \<open>\<open>s.includes(t)\<close>\<close>
  "includesStr [] t = (t = [])"
| "includesStr (c # s) t = (prefix t (c # s) \<or> includesStr s t)"

fun replaceFirst :: "string \<Rightarrow> string \<Rightarrow> string \<Rightarrow> string" where
  \<comment> \<open>\<open>s.replace(pat, rep)\<close> with a string \<open>pat\<close>; the subject is the last argument.\<close>
  "replaceFirst pat rep [] = (if pat = [] then rep else [])"
| "replaceFirst pat rep (c # s) =
     (if prefix pat (c # s) then rep @ drop (length pat) (c # s)
      else c # replaceFirst pat rep s)"

text \<open>
  Regular expressions, as far as the patterns of the code go: literals, character
  classes, sequence, alternation, greedy repetition of a class, \<open>\b\<close>, and the
  anchors \<open>^\<close> and \<open>$\<close> of a multi-line pattern. A match
  is searched the way a backtracking matcher does: \<open>ends\<close> lists the positions at
  which a match starting here can end, in the order in which backtracking reaches
  them, so the head of the list is the match found. The matcher runs on the code
  points of the text; a position is the character before it (for \<open>\b\<close>) and the
  text after it. The flag \<open>ci\<close> is the \<open>i\<close> flag.
\<close>

datatype charset = OneOf "(int \<times> int) list" | NoneOf "(int \<times> int) list"

datatype regex =
    Eps
  | Chars charset
  | Lit "int list"
  | Seq regex regex
  | Alt regex regex
  | Rep nat "nat option" charset
  | WordBoundary
  | LineStart
  | LineEnd

type_synonym position = "int option \<times> int list"

definition inRanges :: "bool \<Rightarrow> (int \<times> int) list \<Rightarrow> int \<Rightarrow> bool" where
  \<comment> \<open>With \<open>i\<close>, a character matches when a letter of its case pair is in a range.\<close>
  "inRanges ci rs n =
     list_ex (\<lambda>(lo, hi). between lo hi n
                \<or> (ci \<and> (between lo hi (toLowerCode n) \<or> between lo hi (toUpperCode n)))) rs"

fun matchesSet :: "bool \<Rightarrow> charset \<Rightarrow> int \<Rightarrow> bool" where
  "matchesSet ci (OneOf rs) n = inRanges ci rs n"
| "matchesSet ci (NoneOf rs) n = (\<not> inRanges ci rs n)"

definition sameChar :: "bool \<Rightarrow> int \<Rightarrow> int \<Rightarrow> bool" where
  "sameChar ci a n = (a = n \<or> (ci \<and> toUpperCode a = toUpperCode n))"

fun matchLit :: "bool \<Rightarrow> int list \<Rightarrow> position \<Rightarrow> position option" where
  "matchLit ci [] pos = Some pos"
| "matchLit ci (a # l) (p, []) = None"
| "matchLit ci (a # l) (p, n # s) = (if sameChar ci a n then matchLit ci l (Some n, s) else None)"

fun run :: "bool \<Rightarrow> charset \<Rightarrow> nat option \<Rightarrow> position \<Rightarrow> position list" where
  \<comment> \<open>The positions after 0, 1, 2, ... characters of the class, at most \<open>mx\<close> of them.\<close>
  "run ci cs mx (p, []) = [(p, [])]"
| "run ci cs mx (p, n # s) =
     (p, n # s) #
     (if mx \<noteq> Some 0 \<and> matchesSet ci cs n
      then run ci cs (map_option (\<lambda>k. k - 1) mx) (Some n, s)
      else [])"

definition isWordChar :: "int option \<Rightarrow> bool" where
  \<comment> \<open>\<open>[A-Za-z0-9_]\<close>; the two ends of the text count as no word character.\<close>
  "isWordChar x =
     (case x of None \<Rightarrow> False
      | Some n \<Rightarrow> between 48 57 n \<or> between 65 90 n \<or> between 97 122 n \<or> n = 95)"

definition atLineBreak :: "int option \<Rightarrow> bool" where
  \<comment> \<open>\<open>^\<close> and \<open>$\<close> with the \<open>m\<close> flag: an end of the text, or a line terminator
      (\<open>\n\<close> or \<open>\r\<close> among the code points 0..255) on that side.\<close>
  "atLineBreak x = (case x of None \<Rightarrow> True | Some n \<Rightarrow> n = 10 \<or> n = 13)"

fun ends :: "bool \<Rightarrow> regex \<Rightarrow> position \<Rightarrow> position list" where
  "ends ci Eps pos = [pos]"
| "ends ci (Chars cs) (p, []) = []"
| "ends ci (Chars cs) (p, n # s) = (if matchesSet ci cs n then [(Some n, s)] else [])"
| "ends ci (Lit l) pos = (case matchLit ci l pos of None \<Rightarrow> [] | Some e \<Rightarrow> [e])"
| "ends ci (Seq a b) pos = concat (map (ends ci b) (ends ci a pos))"
| "ends ci (Alt a b) pos = ends ci a pos @ ends ci b pos"
| "ends ci (Rep mn mx cs) pos = rev (drop mn (run ci cs mx pos))"
| "ends ci WordBoundary (p, s) =
     (if isWordChar p \<noteq> isWordChar (case s of [] \<Rightarrow> None | n # _ \<Rightarrow> Some n)
      then [(p, s)] else [])"
| "ends ci LineStart (p, s) = (if atLineBreak p then [(p, s)] else [])"
| "ends ci LineEnd (p, s) =
     (if atLineBreak (case s of [] \<Rightarrow> None | n # _ \<Rightarrow> Some n) then [(p, s)] else [])"

definition matchAt :: "bool \<Rightarrow> regex \<Rightarrow> position \<Rightarrow> position option" where
  "matchAt ci r pos = (case ends ci r pos of [] \<Rightarrow> None | e # _ \<Rightarrow> Some e)"

text \<open>
  The loop \<open>while ((match = pattern.exec(text)) !== null)\<close> on a global pattern whose
  \<open>lastIndex\<close> starts at 0: every match is tried from the end of the one before. The
  result lists \<open>match.index\<close> and the length of \<open>match[0]\<close>. A match of no character
  leaves \<open>lastIndex\<close> where it is and the loop never ends: that is the value \<open>None\<close>.
\<close>

function execAll :: "bool \<Rightarrow> regex \<Rightarrow> nat \<Rightarrow> position \<Rightarrow> (nat \<times> nat) list option" where
  "execAll ci r i (p, s) =
     (case matchAt ci r (p, s) of
        Some (p', rest) \<Rightarrow>
          if length rest < length s
          then map_option (\<lambda>ms. (i, length s - length rest) # ms)
                 (execAll ci r (i + (length s - length rest)) (p', rest))
          else None
      | None \<Rightarrow>
          (case s of
             [] \<Rightarrow> Some []
           | n # s' \<Rightarrow> execAll ci r (i + 1) (Some n, s')))"
  by pat_completeness auto
termination
  by (relation "measure (\<lambda>(ci, r, i, p, s). length s)") auto

definition substr :: "string \<Rightarrow> nat \<times> nat \<Rightarrow> string" where
  \<comment> \<open>The text of a match: \<open>len\<close> characters from \<open>index\<close>.\<close>
  "substr text m = (case m of (index, len) \<Rightarrow> take len (drop index text))"

fun testFrom :: "bool \<Rightarrow> regex \<Rightarrow> position \<Rightarrow> bool" where
  \<comment> \<open>Is there a match starting at this position or later?\<close>
  "testFrom ci r (p, []) = (matchAt ci r (p, []) \<noteq> None)"
| "testFrom ci r (p, n # s) =
     (if matchAt ci r (p, n # s) \<noteq> None then True else testFrom ci r (Some n, s))"

definition testRegex :: "bool \<Rightarrow> regex \<Rightarrow> string \<Rightarrow> bool" where
  \<comment> \<open>\<open>pattern.test(s)\<close> on a pattern whose \<open>lastIndex\<close> is 0.\<close>
  "testRegex ci r s = testFrom ci r (None, codes s)"

definition lit :: "string \<Rightarrow> regex" where
  "lit s = Lit (codes s)"

definition seqs :: "regex list \<Rightarrow> regex" where
  "seqs rs = foldr Seq rs Eps"

definition alts :: "regex list \<Rightarrow> regex" where
  "alts rs = (case rs of [] \<Rightarrow> Eps | _ \<Rightarrow> foldr Alt (butlast rs) (last rs))"

definition opt :: "regex \<Rightarrow> regex" where
  \<comment> \<open>\<open>(?:r)?\<close>\<close>
  "opt r = Alt r Eps"

definition ch :: "char \<Rightarrow> int \<times> int" where
  "ch c = (codeOf c, codeOf c)"

definition rg :: "char \<Rightarrow> char \<Rightarrow> int \<times> int" where
  "rg a b = (codeOf a, codeOf b)"

definition whitespace :: "(int \<times> int) list" where
  \<comment> \<open>\<open>\s\<close> among the code points 0..255.\<close>
  "whitespace = [(9, 13), (32, 32), (160, 160)]"

definition alnum :: "(int \<times> int) list" where
  "alnum = [rg CHR ''a'' CHR ''z'', rg CHR ''A'' CHR ''Z'', rg CHR ''0'' CHR ''9'']"

definition digit :: "(int \<times> int) list" where
  "digit = [rg CHR ''0'' CHR ''9'']"

definition quote :: "(int \<times> int) list" where
  "quote = [(39, 39), (34, 34)]"

text \<open>The least number of characters a match of a pattern holds.\<close>

fun minLen :: "regex \<Rightarrow> nat" where
  "minLen Eps = 0"
| "minLen (Chars cs) = 1"
| "minLen (Lit l) = length l"
| "minLen (Seq a b) = minLen a + minLen b"
| "minLen (Alt a b) = min (minLen a) (minLen b)"
| "minLen (Rep mn mx cs) = mn"
| "minLen WordBoundary = 0"
| "minLen LineStart = 0"
| "minLen LineEnd = 0"

section \<open>Guardrail engine (src/lib/ai/guardrails.ts)\<close>

definition separator :: regex where
  \<comment> \<open>\<open>[=:\s]+\<close>\<close>
  "separator = Rep 1 None (OneOf (ch CHR ''='' # ch CHR '':'' # whitespace))"

definition optQuote :: regex where
  \<comment> \<open>\<open>['"]?\<close>\<close>
  "optQuote = Rep 0 (Some 1) (OneOf quote)"

definition SENSITIVE_PATTERNS :: "(bool \<times> regex \<times> string) list" where
  \<comment> \<open>Each entry: the \<open>i\<close> flag, the pattern, the name. All are global patterns.\<close>
  "SENSITIVE_PATTERNS =
    [(True,
      seqs [alts [seqs [lit ''api'', Rep 0 (Some 1) (OneOf [ch CHR ''_'', ch CHR ''-'']), lit ''key''],
                  lit ''apikey''],
            Rep 1 None (OneOf (ch CHR ''='' # ch CHR '':'' # whitespace)),
            optQuote,
            Rep 20 None (OneOf (alnum @ [ch CHR ''_'', ch CHR ''-''])),
            optQuote],
      ''API Key''),
     (True,
      seqs [alts [lit ''bearer'', lit ''token''],
            Rep 1 None (OneOf (ch CHR '':'' # whitespace)),
            optQuote,
            Rep 20 None (OneOf (alnum @ [ch CHR ''_'', ch CHR ''-'', ch CHR ''.''])),
            optQuote],
      ''Bearer Token''),
     (True, seqs [lit ''sk-'', Rep 32 None (OneOf alnum)], ''OpenAI API Key''),
     (True, seqs [lit ''ghp_'', Rep 36 (Some 36) (OneOf alnum)], ''GitHub Token''),
     (True, seqs [lit ''gho_'', Rep 36 (Some 36) (OneOf alnum)], ''GitHub OAuth Token''),
     (True,
      seqs [lit ''xox'',
            Chars (OneOf [ch CHR ''b'', ch CHR ''a'', ch CHR ''p'', ch CHR ''r'', ch CHR ''s'']),
            lit ''-'',
            Rep 1 None (OneOf (alnum @ [ch CHR ''-'']))],
      ''Slack Token''),
     (True,
      seqs [lit ''AKIA'', Rep 16 (Some 16) (OneOf [rg CHR ''A'' CHR ''Z'', rg CHR ''0'' CHR ''9''])],
      ''AWS Access Key''),
     (True,
      seqs [alts [seqs [lit ''aws'', Rep 0 (Some 1) (OneOf [ch CHR ''_'', ch CHR ''-'']), lit ''secret''],
                  seqs [lit ''secret'', Rep 0 (Some 1) (OneOf [ch CHR ''_'', ch CHR ''-'']), lit ''key'']],
            separator,
            optQuote,
            Rep 40 (Some 40) (OneOf (alnum @ [ch CHR ''/'', ch CHR ''+'', ch CHR ''=''])),
            optQuote],
      ''AWS Secret''),
     (True,
      seqs [alts [lit ''password'', lit ''passwd'', lit ''pwd''],
            separator,
            optQuote,
            Rep 8 None (NoneOf (whitespace @ quote)),
            optQuote],
      ''Password''),
     (True,
      seqs [alts [lit ''secret'', lit ''credential''],
            separator,
            optQuote,
            Rep 8 None (NoneOf (whitespace @ quote)),
            optQuote],
      ''Secret''),
     (False,
      seqs [WordBoundary,
            alts [seqs [lit ''4'', Rep 12 (Some 12) (OneOf digit),
                        opt (Rep 3 (Some 3) (OneOf digit))],
                  seqs [lit ''5'', Chars (OneOf [rg CHR ''1'' CHR ''5'']),
                        Rep 14 (Some 14) (OneOf digit)],
                  seqs [lit ''3'', Chars (OneOf [ch CHR ''4'', ch CHR ''7'']),
                        Rep 13 (Some 13) (OneOf digit)],
                  seqs [lit ''6'',
                        alts [lit ''011'', seqs [lit ''5'', Rep 2 (Some 2) (OneOf digit)]],
                        Rep 12 (Some 12) (OneOf digit)]],
            WordBoundary],
      ''Credit Card''),
     (False,
      seqs [WordBoundary, Rep 3 (Some 3) (OneOf digit), lit ''-'', Rep 2 (Some 2) (OneOf digit),
            lit ''-'', Rep 4 (Some 4) (OneOf digit), WordBoundary],
      ''SSN''),
     (True,
      seqs [lit ''-----BEGIN '',
            opt (alts [lit ''RSA '', lit ''EC '', lit ''DSA '', lit ''OPENSSH '']),
            lit ''PRIVATE KEY-----''],
      ''Private Key''),
     (True,
      seqs [alts [lit ''mongodb'', lit ''mysql'', lit ''postgresql'', lit ''redis'', lit ''amqp''],
            lit ''://'',
            Rep 1 None (NoneOf whitespace)],
      ''Connection String''),
     (True,
      seqs [Rep 1 None (OneOf (alnum @ [ch CHR ''.'', ch CHR ''_'', ch CHR ''%'', ch CHR ''+'', ch CHR ''-''])),
            lit ''@'',
            Rep 1 None (OneOf (alnum @ [ch CHR ''.'', ch CHR ''-''])),
            lit ''.'',
            Rep 2 None (OneOf [rg CHR ''a'' CHR ''z'', rg CHR ''A'' CHR ''Z'']),
            lit '':'',
            Rep 1 None (NoneOf whitespace)],
      ''Email:Password'')]"

record Redaction =
  red_type :: string
  red_original :: string
  red_position :: nat

record RedactionResult =
  rd_text :: string
  rd_redactions :: "Redaction list"
  rd_hasSecrets :: bool

definition redactMatch ::
  "string \<Rightarrow> string \<Rightarrow> string \<times> Redaction list \<Rightarrow> nat \<times> nat \<Rightarrow> string \<times> Redaction list" where
  \<comment> \<open>The body of the \<open>while\<close> loop for one match in \<open>text\<close> of the pattern called
      \<open>name\<close>.\<close>
  "redactMatch name text acc m =
     (case acc of
        (result, redactions) \<Rightarrow>
          let original = substr text m
          in (replaceFirst original (''[REDACTED '' @ name @ '']'') result,
              redactions @ [\<lparr> red_type = name, red_original = take 4 original @ ''...'',
                               red_position = fst m \<rparr>]))"

fun redactLoop ::
  "(bool \<times> regex \<times> string) list \<Rightarrow> string \<Rightarrow> string \<times> Redaction list
     \<Rightarrow> (string \<times> Redaction list) option" where
  \<comment> \<open>The \<open>for\<close> loop over the patterns: each is run over the input \<open>text\<close>, and its
      matches are replaced in \<open>result\<close>.\<close>
  "redactLoop [] text acc = Some acc"
| "redactLoop ((ci, pattern, name) # rest) text acc =
     (case execAll ci pattern 0 (None, codes text) of
        None \<Rightarrow> None
      | Some ms \<Rightarrow> redactLoop rest text (foldl (redactMatch name text) acc ms))"

definition redactSecrets :: "string \<Rightarrow> RedactionResult option" where
  \<comment> \<open>\<open>None\<close>: the call does not return.\<close>
  "redactSecrets text =
     map_option
       (\<lambda>(result, redactions).
          \<lparr> rd_text = result, rd_redactions = redactions, rd_hasSecrets = (redactions \<noteq> []) \<rparr>)
       (redactLoop SENSITIVE_PATTERNS text (text, []))"




definition ESCALATION_KEYWORDS :: "string list" where
  "ESCALATION_KEYWORDS =
    [''lawsuit'', ''legal action'', ''attorney'', ''lawyer'', ''sue'', ''court'',
     ''compliance'', ''regulation'', ''gdpr'', ''hipaa'', ''pci'', ''sox'',
     ''breach'', ''hack'', ''compromised'', ''unauthorized access'', ''data leak'',
     ''ransomware'', ''malware'', ''phishing'', ''security incident'',
     ''fraud'', ''charge back'', ''chargeback'', ''dispute charge'', ''unauthorized charge'',
     ''refund demand'', ''cancel subscription'', ''billing error'',
     ''speak to manager'', ''supervisor'', ''escalate'', ''unacceptable'',
     ''terrible service'', ''worst experience'', ''never again'',
     ''social media'', ''bad review'', ''report you'', ''bbb'',
     ''emergency'', ''urgent'', ''critical'', ''production down'', ''outage'']"

datatype Severity = low | medium | high | critical

record EscalationCheck =
  ec_shouldEscalate :: bool
  ec_reasons :: "string list"
  ec_severity :: Severity

record EscalationContext =
  cx_failedAttempts :: "int option"
  cx_severity :: "string option"
  cx_customerRequested :: "bool option"

definition keywordStep :: "string \<Rightarrow> string list \<times> Severity \<Rightarrow> string \<Rightarrow> string list \<times> Severity" where
  \<comment> \<open>The body of the loop over \<open>ESCALATION_KEYWORDS\<close>.\<close>
  "keywordStep lowerMessage acc keyword =
     (case acc of
        (reasons, severity) \<Rightarrow>
          if includesStr lowerMessage (toLowerCase keyword) then
            (reasons @ [''Keyword detected: \"'' @ keyword @ ''\"''],
             if list_ex (\<lambda>k. includesStr (toLowerCase keyword) k)
                  [''lawsuit'', ''legal action'', ''breach'', ''hack'', ''security incident'']
             then critical
             else if list_ex (\<lambda>k. includesStr (toLowerCase keyword) k)
                  [''compliance'', ''fraud'', ''emergency'', ''production down'']
             then high
             else if severity \<noteq> critical \<and> severity \<noteq> high then medium
             else severity)
          else (reasons, severity))"

definition keywordPass :: "string \<Rightarrow> string list \<Rightarrow> string list \<times> Severity" where
  \<comment> \<open>The keyword loop run over a list of keywords, from no reason and \<open>low\<close>.\<close>
  "keywordPass message keywords = foldl (keywordStep (toLowerCase message)) ([], low) keywords"

definition contextPass :: "EscalationContext \<Rightarrow> string list \<times> Severity \<Rightarrow> string list \<times> Severity" where
  \<comment> \<open>The three context-based triggers, in order.\<close>
  "contextPass ctx acc =
     (let acc1 =
            (case acc of (reasons, severity) \<Rightarrow>
               if (case cx_failedAttempts ctx of None \<Rightarrow> False | Some n \<Rightarrow> n \<noteq> 0 \<and> n \<ge> 3)
               then (reasons @ [''Multiple failed resolution attempts''],
                     if severity = low then medium else severity)
               else (reasons, severity));
          acc2 =
            (case acc1 of (reasons, severity) \<Rightarrow>
               if cx_severity ctx = Some ''critical'' then
                 (reasons @ [''Case severity: critical''], critical)
               else if cx_severity ctx = Some ''high'' then
                 (reasons @ [''Case severity: high''], high)
               else (reasons, severity))
      in case acc2 of (reasons, severity) \<Rightarrow>
           if cx_customerRequested ctx = Some True
           then (reasons @ [''Customer requested human agent''],
                 if severity = low then medium else severity)
           else (reasons, severity))"

definition checkEscalationTriggers :: "string \<Rightarrow> EscalationContext option \<Rightarrow> EscalationCheck" where
  "checkEscalationTriggers message ctx =
     (let afterKeywords = keywordPass message ESCALATION_KEYWORDS;
          final = (case ctx of None \<Rightarrow> afterKeywords | Some c \<Rightarrow> contextPass c afterKeywords)
      in case final of (reasons, severity) \<Rightarrow>
           \<lparr> ec_shouldEscalate = (reasons \<noteq> []), ec_reasons = reasons, ec_severity = severity \<rparr>)"

record Validation =
  va_valid :: bool
  va_issues :: "string list"
  va_sanitizedResponse :: string

definition inappropriatePatterns :: "regex list" where
  \<comment> \<open>All four carry the \<open>i\<close> flag.\<close>
  "inappropriatePatterns =
     [seqs [WordBoundary, lit ''i will hack'', WordBoundary],
      seqs [WordBoundary, lit ''password is'', WordBoundary],
      seqs [WordBoundary, lit ''here's your api key'', WordBoundary],
      seqs [WordBoundary, lit ''your credit card'', WordBoundary]]"

definition validateAIResponse :: "string \<Rightarrow> Validation option" where
  "validateAIResponse response =
     map_option
       (\<lambda>redaction.
          let issues1 = (if rd_hasSecrets redaction
                         then [''Response contained sensitive data that was redacted''] else []);
              sanitized = (if rd_hasSecrets redaction then rd_text redaction else response);
              issues2 = issues1 @
                (if list_ex (\<lambda>pattern. testRegex True pattern response) inappropriatePatterns
                 then [''Response may contain inappropriate content''] else []);
              issues3 = issues2 @
                (if length response > 4000 then [''Response exceeds recommended length''] else [])
          in \<lparr> va_valid = (issues3 = []), va_issues = issues3, va_sanitizedResponse = sanitized \<rparr>)
       (redactSecrets response)"

section \<open>Tier-1 agent (the L1 agent module) and \<open>findPlaybooks\<close>\<close>

fun splitOn :: "char \<Rightarrow> string \<Rightarrow> string list" where
  \<comment> \<open>\<open>s.split(d)\<close> for a one-character separator.\<close>
  "splitOn d [] = [[]]"
| "splitOn d (c # s) =
     (if c = d then [] # splitOn d s
      else (case splitOn d s of [] \<Rightarrow> [[c]] | w # ws \<Rightarrow> (c # w) # ws))"

fun joinWith :: "string \<Rightarrow> string list \<Rightarrow> string" where
  \<comment> \<open>\<open>xs.join(sep)\<close>\<close>
  "joinWith sep [] = []"
| "joinWith sep [x] = x"
| "joinWith sep (x # y # ys) = x @ sep @ joinWith sep (y # ys)"

record PlaybookCriteria =
  pc_product :: "string option"
  pc_category :: "string option"
  pc_keywords :: "string list option"

definition keywordOverlap :: "string list \<Rightarrow> string list \<Rightarrow> bool" where
  "keywordOverlap keywords triggerKeywords =
     list_ex (\<lambda>kw. list_ex (\<lambda>tk. includesStr (toLowerCase tk) (toLowerCase kw)
                                 \<or> includesStr (toLowerCase kw) (toLowerCase tk))
                       triggerKeywords) keywords"

definition matchesCriteria :: "PlaybookCriteria \<Rightarrow> Playbook \<Rightarrow> bool" where
  \<comment> \<open>The predicate of the \<open>filter\<close>; an array, also an empty one, is truthy.\<close>
  "matchesCriteria criteria playbook =
     (let triggers = pb_triggers playbook in
      if (case (pc_product criteria, trg_products triggers) of
            (Some product, Some products) \<Rightarrow> product \<noteq> [] \<and> product \<notin> set products
          | _ \<Rightarrow> False) then False
      else if (case (pc_category criteria, trg_categories triggers) of
            (Some category, Some categories) \<Rightarrow> category \<noteq> [] \<and> category \<notin> set categories
          | _ \<Rightarrow> False) then False
      else if (case (pc_keywords criteria, trg_keywords triggers) of
            (Some keywords, Some triggerKeywords) \<Rightarrow> \<not> keywordOverlap keywords triggerKeywords
          | _ \<Rightarrow> False) then False
      else True)"

definition findPlaybooks :: "Playbook list \<Rightarrow> PlaybookCriteria \<Rightarrow> Playbook list" where
  \<comment> \<open>The registry (a module-level map, read in insertion order) is the first argument.\<close>
  "findPlaybooks registry criteria = filter (matchesCriteria criteria) registry"

fun replaceAll :: "string \<Rightarrow> string \<Rightarrow> string \<Rightarrow> string" where
  \<comment> \<open>Every occurrence of a non-empty \<open>pat\<close>, from the left, becomes \<open>rep\<close>; the subject
      is the last argument.\<close>
  "replaceAll pat rep [] = []"
| "replaceAll pat rep (c # s) =
     (if pat \<noteq> [] \<and> prefix pat (c # s)
      then rep @ replaceAll pat rep (drop (length pat - 1) s)
      else c # replaceAll pat rep s)"

text \<open>
  Collaborators of the agent that are not code of the repository are fields of the
  environment. \<open>new_OpenAI\<close> is the constructor of the SDK's client, applied to
  \<open>process.env.OPENAI_API_KEY\<close> in \<open>getOpenAIClient\<close>; it may throw, and otherwise gives
  \<open>chat.completions.create\<close>, which answers a request with a completion or throws.
  \<open>regexp_replace source subject replacement\<close> is
  \<open>subject.replace(new RegExp(source, 'g'), replacement)\<close> of the platform: it throws
  (a \<open>SyntaxError\<close>) when \<open>source\<close> is no regular expression. The arguments of a tool
  call are held as \<open>JSON.parse\<close> reads them. The tool definitions of a request are
  constants and are held by name. The clock (\<open>processingTimeMs\<close>) is left out.
\<close>

datatype Role = role_user | role_assistant | role_system

record L1AgentContext =
  ac_tenantId :: string
  ac_caseId :: string
  ac_product :: string
  ac_category :: string
  ac_language :: string
  ac_severity :: Severity
  ac_customerName :: "string option"
  ac_conversationHistory :: "(Role \<times> string) list"
  ac_playbookState :: "PlaybookExecutionState option"
  ac_failedAttempts :: "int option"

datatype ToolArguments =
    Malformed  \<comment> \<open>\<open>JSON.parse\<close> throws\<close>
  | JsonNull
  | JsonObject "(string \<times> string) list"
  | JsonOther  \<comment> \<open>a number, a string, a boolean or an array\<close>

datatype ToolCall = FunctionToolCall string ToolArguments | CustomToolCall

record ChatMessage =
  cm_content :: "string option"
  cm_tool_calls :: "ToolCall list option"

record ChatCompletion =
  cc_choices :: "ChatMessage list"
  cc_model :: string
  cc_total_tokens :: "int option"

record ChatRequest =
  cr_model :: string
  cr_messages :: "(Role \<times> string) list"
  cr_tools :: "string list"
  cr_tool_choice :: string
  cr_temperature :: real
  cr_max_tokens :: int

record 'e AgentEnv = "'e RetrievalEnv" +
  new_OpenAI :: "string option \<Rightarrow> error + (ChatRequest \<Rightarrow> error + ChatCompletion)"
  playbookRegistry :: "Playbook list"
  regexp_replace :: "string \<Rightarrow> string \<Rightarrow> string \<Rightarrow> error + string"

datatype EscalationLevel = L2 | L3

record AgentAction =
  act_type :: string
  act_params :: ToolArguments

record PlaybookStepInfo =
  psi_id :: string
  psi_title :: string
  psi_instruction :: string

record SourceRef =
  src_docId :: string
  src_content :: string
  src_score :: real

record ResponseMetadata =
  md_model :: string
  md_tokensUsed :: int
  md_ragChunksUsed :: nat

record L1AgentResponse =
  ar_message :: string
  ar_action :: "AgentAction option"
  ar_shouldEscalate :: bool
  ar_escalationReason :: "string option"
  ar_escalationLevel :: "EscalationLevel option"
  ar_playbookStep :: "PlaybookStepInfo option"
  ar_sources :: "SourceRef list option"
  ar_metadata :: ResponseMetadata

datatype Effect =
    RetrievalCall string string RetrievalOptions
  | ChatCompletionCall ChatRequest

definition AGENT_FUNCTIONS :: "string list" where
  "AGENT_FUNCTIONS =
     [''lookup_documentation'', ''execute_playbook_step'', ''escalate_to_l2'',
      ''escalate_to_human'', ''mark_resolved'']"

definition placeholderSource :: "string \<Rightarrow> string" where
  \<comment> \<open>The template literal \<open>\\{\\{${key}\\}\\}\<close>: the source \<open>\{\{key\}\}\<close>.\<close>
  "placeholderSource key =
     [CHR 0x5C, CHR ''{'', CHR 0x5C, CHR ''{''] @ key @ [CHR 0x5C, CHR ''}'', CHR 0x5C, CHR ''}'']"

definition formatInstruction ::
  "('e, 'x) AgentEnv_scheme \<Rightarrow> string \<Rightarrow> (string \<times> string) list \<Rightarrow> error + string" where
  \<comment> \<open>The loop over \<open>Object.entries(variables)\<close>, the entries in the order of the list;
      an error of \<open>new RegExp\<close> ends it.\<close>
  "formatInstruction env instruction variables =
     foldl (\<lambda>formatted (key, v).
              case formatted of
                Inl e \<Rightarrow> Inl e
              | Inr t \<Rightarrow> regexp_replace env (placeholderSource key) t v)
       (Inr instruction) variables"

fun severityName :: "Severity \<Rightarrow> string" where
  "severityName low = ''low''"
| "severityName medium = ''medium''"
| "severityName high = ''high''"
| "severityName critical = ''critical''"

definition customerLine :: "L1AgentContext \<Rightarrow> string" where
  "customerLine context =
     (case ac_customerName context of
        None \<Rightarrow> []
      | Some customerName \<Rightarrow>
          if customerName \<noteq> [] then ''- Customer: '' @ customerName else [])"

definition promptHeader :: "L1AgentContext \<Rightarrow> string" where
  "promptHeader context =
     ''You are TechSupport AI, a Level 1 (L1) support agent. You help customers with technical issues using a structured approach.\<newline>'' @
     ''\<newline>'' @
     ''## Your Capabilities\<newline>'' @
     ''- Search knowledge base documentation\<newline>'' @
     ''- Guide customers through troubleshooting steps\<newline>'' @
     ''- Execute playbook steps for common issues\<newline>'' @
     ''- Escalate to L2 (advanced AI) when needed\<newline>'' @
     ''- Escalate to human agents for complex cases\<newline>'' @
     ''\<newline>'' @
     ''## Constraints\<newline>'' @
     ''- NEVER perform destructive actions (delete accounts, modify billing, etc.)\<newline>'' @
     ''- NEVER share sensitive information (passwords, API keys, etc.)\<newline>'' @
     ''- Always be polite and professional\<newline>'' @
     ''- Keep responses concise but helpful\<newline>'' @
     ''- If unsure, escalate rather than guess\<newline>'' @
     ''\<newline>'' @
     ''## Current Case Context\<newline>'' @
     ''- Product: '' @ ac_product context @ ''\<newline>'' @
     ''- Category: '' @ ac_category context @ ''\<newline>'' @
     ''- Severity: '' @ severityName (ac_severity context) @ ''\<newline>'' @
     ''- Language: '' @ ac_language context @ ''\<newline>'' @
     customerLine context @ ''\<newline>'' @
     ''\<newline>''"

definition promptDocumentation :: "string \<Rightarrow> string" where
  "promptDocumentation ragContext =
     (if ragContext \<noteq> []
      then ''## Relevant Documentation\<newline>'' @ ragContext @ ''\<newline>'' @ ''\<newline>''
      else [])"

definition expectedLine :: "PlaybookStep \<Rightarrow> string" where
  "expectedLine currentStep =
     (case step_expectedOutcome currentStep of
        None \<Rightarrow> []
      | Some expectedOutcome \<Rightarrow>
          if expectedOutcome \<noteq> [] then ''**Expected Outcome**: '' @ expectedOutcome else [])"

definition promptPlaybook :: "Playbook \<Rightarrow> PlaybookStep \<Rightarrow> string \<Rightarrow> string" where
  "promptPlaybook playbook currentStep instruction =
     ''## Current Playbook: '' @ meta_name (pb_metadata playbook) @ ''\<newline>'' @
     ''**Current Step ('' @ step_id currentStep @ '')**: '' @ step_title currentStep @ ''\<newline>'' @
     ''**Instructions**: '' @ instruction @ ''\<newline>'' @
     expectedLine currentStep @ ''\<newline>'' @
     ''\<newline>'' @
     ''Follow this playbook step. If the customer confirms success, mark the step as successful. If they report failure, follow the failure path or escalate if needed.\<newline>'' @
     ''\<newline>''"

definition promptGuidelines :: "L1AgentContext \<Rightarrow> string" where
  "promptGuidelines context =
     ''## Response Guidelines\<newline>'' @
     ''1. First, try to understand the customer's issue\<newline>'' @
     ''2. Search documentation if you need more information\<newline>'' @
     ''3. Guide the customer through troubleshooting steps\<newline>'' @
     ''4. If following a playbook, stick to the current step\<newline>'' @
     ''5. Escalate if:\<newline>'' @
     ''   - The issue is beyond L1 scope\<newline>'' @
     ''   - Multiple attempts have failed\<newline>'' @
     ''   - Customer requests human assistance\<newline>'' @
     ''   - Security/compliance concerns arise\<newline>'' @
     ''\<newline>'' @
     ''Respond in '' @ ac_language context @ ''.''"

definition currentInstruction ::
  "('e, 'x) AgentEnv_scheme \<Rightarrow> L1AgentContext \<Rightarrow> Playbook option
     \<Rightarrow> error + (Playbook \<times> PlaybookStep \<times> string) option" where
  \<comment> \<open>\<open>if (playbook && context.playbookState)\<close>, then the current step with its
      instruction formatted, if there is one.\<close>
  "currentInstruction env context playbook =
     (case (playbook, ac_playbookState context) of
        (Some pb, Some state) \<Rightarrow>
          (case getCurrentStep pb state of
             None \<Rightarrow> Inr None
           | Some currentStep \<Rightarrow>
               (case formatInstruction env (step_instruction currentStep) (st_variables state) of
                  Inl e \<Rightarrow> Inl e
                | Inr instruction \<Rightarrow> Inr (Some (pb, currentStep, instruction))))
      | _ \<Rightarrow> Inr None)"

definition buildSystemPrompt ::
  "('e, 'x) AgentEnv_scheme \<Rightarrow> L1AgentContext \<Rightarrow> string \<Rightarrow> Playbook option \<Rightarrow> error + string" where
  "buildSystemPrompt env context ragContext playbook =
     (case currentInstruction env context playbook of
        Inl e \<Rightarrow> Inl e
      | Inr current \<Rightarrow>
          Inr (promptHeader context @ promptDocumentation ragContext
               @ (case current of
                    None \<Rightarrow> []
                  | Some (pb, currentStep, instruction) \<Rightarrow>
                      promptPlaybook pb currentStep instruction)
               @ promptGuidelines context))"

definition triggerCheck :: "L1AgentContext \<Rightarrow> string \<Rightarrow> EscalationCheck" where
  \<comment> \<open>The call of \<open>checkEscalationTriggers\<close> on the redacted message.\<close>
  "triggerCheck context safeUserMessage =
     checkEscalationTriggers safeUserMessage
       (Some \<lparr> cx_failedAttempts = ac_failedAttempts context,
               cx_severity = Some (severityName (ac_severity context)),
               cx_customerRequested =
                 Some (includesStr (toLowerCase safeUserMessage) ''speak to human''
                       \<or> includesStr (toLowerCase safeUserMessage) ''talk to person'') \<rparr>)"

definition handoffResponse :: "EscalationCheck \<Rightarrow> L1AgentResponse" where
  \<comment> \<open>The early return.\<close>
  "handoffResponse escalationCheck =
     \<lparr> ar_message = ''I understand this is a critical matter. I'm connecting you with a human support specialist right away who can assist you better.'',
       ar_action = None,
       ar_shouldEscalate = True,
       ar_escalationReason = Some (joinWith ''; '' (ec_reasons escalationCheck)),
       ar_escalationLevel = Some L3,
       ar_playbookStep = None,
       ar_sources = None,
       ar_metadata = \<lparr> md_model = ''gpt-4'', md_tokensUsed = 0, md_ragChunksUsed = 0 \<rparr> \<rparr>"

definition ragOptions :: "L1AgentContext \<Rightarrow> RetrievalOptions" where
  "ragOptions context =
     \<lparr> ro_topK = Some 5, ro_minScore = None, ro_product = Some (ac_product context),
       ro_kbId = None, ro_language = None \<rparr>"

definition toSource :: "RetrievalResult \<Rightarrow> SourceRef" where
  "toSource c = \<lparr> src_docId = rm_docId (rr_metadata c),
                  src_content = take 200 (rr_content c) @ ''...'',
                  src_score = rr_score c \<rparr>"

definition interpretToolCall ::
  "ChatMessage \<Rightarrow> bool \<times> string option \<Rightarrow>
     error + (AgentAction option \<times> bool \<times> string option \<times> EscalationLevel option)" where
  \<comment> \<open>At most the first tool call is read; the pair holds \<open>shouldEscalate\<close> and
      \<open>escalationReason\<close> as the trigger check left them. \<open>functionArgs.reason\<close> throws
      on \<open>null\<close> and is \<open>undefined\<close> on a value that is no object.\<close>
  "interpretToolCall responseMessage before =
     (case before of (shouldEscalate, escalationReason) \<Rightarrow>
        (case cm_tool_calls responseMessage of
           Some (FunctionToolCall functionName arguments # _) \<Rightarrow>
             if arguments = Malformed then Inl (Error ''SyntaxError: JSON.parse'')
             else
               let action = Some \<lparr> act_type = functionName, act_params = arguments \<rparr>;
                   reason = (case arguments of
                               JsonNull \<Rightarrow> Inl (Error ''TypeError: Cannot read properties of null'')
                             | JsonObject functionArgs \<Rightarrow> Inr (map_of functionArgs ''reason'')
                             | _ \<Rightarrow> Inr None)
               in
               if functionName = ''escalate_to_l2''
               then map_sum id (\<lambda>r. (action, True, r, Some L2)) reason
               else if functionName = ''escalate_to_human''
               then map_sum id (\<lambda>r. (action, True, r, Some L3)) reason
               else Inr (action, shouldEscalate, escalationReason, None)
         | _ \<Rightarrow> Inr (None, shouldEscalate, escalationReason, None)))"

definition retrieveContext ::
  "('e, 'x) AgentEnv_scheme \<Rightarrow> L1AgentContext \<Rightarrow> string \<Rightarrow> RetrievalResult list" where
  \<comment> \<open>The retrieval inside \<open>try\<close>: an error leaves no chunk.\<close>
  "retrieveContext env context safeUserMessage =
     (case retrieveRelevantChunks env (ac_tenantId context) safeUserMessage (ragOptions context) of
        Inl e \<Rightarrow> []
      | Inr chunks \<Rightarrow> chunks)"

definition selectPlaybook ::
  "('e, 'x) AgentEnv_scheme \<Rightarrow> L1AgentContext \<Rightarrow> string \<Rightarrow> Playbook option" where
  \<comment> \<open>\<open>playbooks[0]\<close>\<close>
  "selectPlaybook env context safeUserMessage =
     (case findPlaybooks (playbookRegistry env)
             \<lparr> pc_product = Some (ac_product context),
               pc_category = Some (ac_category context),
               pc_keywords =
                 Some (filter (\<lambda>w. length w > 3) (splitOn CHR '' '' safeUserMessage)) \<rparr> of
        [] \<Rightarrow> None
      | pb # _ \<Rightarrow> Some pb)"

definition chatRequest :: "L1AgentContext \<Rightarrow> string \<Rightarrow> string \<Rightarrow> ChatRequest" where
  "chatRequest context systemPrompt safeUserMessage =
     \<lparr> cr_model = ''gpt-4'',
       cr_messages = [(role_system, systemPrompt)] @ ac_conversationHistory context
                       @ [(role_user, safeUserMessage)],
       cr_tools = AGENT_FUNCTIONS, cr_tool_choice = ''auto'',
       cr_temperature = 7 / 10, cr_max_tokens = 1000 \<rparr>"

definition finishTurn ::
  "('e, 'x) AgentEnv_scheme \<Rightarrow> L1AgentContext \<Rightarrow> EscalationCheck \<Rightarrow> RetrievalResult list
     \<Rightarrow> Playbook option \<Rightarrow> ChatCompletion \<Rightarrow> (error + L1AgentResponse) option" where
  \<comment> \<open>From the completion to the response.\<close>
  "finishTurn env context escalationCheck chunks playbook completion =
     (case cc_choices completion of
        [] \<Rightarrow> Some (Inl (Error ''TypeError: Cannot read properties of undefined''))
      | responseMessage # _ \<Rightarrow>
          (case interpretToolCall responseMessage
                  (ec_shouldEscalate escalationCheck,
                   Some (joinWith ''; '' (ec_reasons escalationCheck))) of
             Inl e \<Rightarrow> Some (Inl e)
           | Inr (action, shouldEscalate, escalationReason, escalationLevel) \<Rightarrow>
               let responseContent = orStr (cm_content responseMessage) [];
                   ragSources = map toSource chunks
               in map_option
                    (\<lambda>validation.
                       case currentInstruction env context playbook of
                         Inl e \<Rightarrow> Inl e
                       | Inr current \<Rightarrow>
                           Inr \<lparr> ar_message =
                                   (if va_valid validation then responseContent
                                    else va_sanitizedResponse validation),
                                 ar_action = action,
                                 ar_shouldEscalate = shouldEscalate,
                                 ar_escalationReason =
                                   (if shouldEscalate then escalationReason else None),
                                 ar_escalationLevel = escalationLevel,
                                 ar_playbookStep =
                                   map_option
                                     (\<lambda>(pb, currentStep, instruction).
                                        \<lparr> psi_id = step_id currentStep,
                                          psi_title = step_title currentStep,
                                          psi_instruction = instruction \<rparr>) current,
                                 ar_sources = (if ragSources \<noteq> [] then Some ragSources else None),
                                 ar_metadata =
                                   \<lparr> md_model = cc_model completion,
                                     md_tokensUsed = orNum (cc_total_tokens completion) 0,
                                     md_ragChunksUsed = length ragSources \<rparr> \<rparr>)
                    (validateAIResponse responseContent)))"

definition askModel ::
  "('e, 'x) AgentEnv_scheme \<Rightarrow> ChatRequest \<Rightarrow> Effect list \<times> (error + ChatCompletion)" where
  \<comment> \<open>\<open>getOpenAIClient().chat.completions.create(request)\<close>: the call is made once the
      client is there.\<close>
  "askModel env request =
     (case new_OpenAI env (OPENAI_API_KEY env) of
        Inl e \<Rightarrow> ([], Inl e)
      | Inr create \<Rightarrow> ([ChatCompletionCall request], create request))"

definition processL1Request ::
  "('e, 'x) AgentEnv_scheme \<Rightarrow> L1AgentContext \<Rightarrow> string
     \<Rightarrow> (Effect list \<times> (error + L1AgentResponse)) option" where
  \<comment> \<open>The result holds the calls made to the retrieval engine and to the model, in
      order, and the response or the error thrown. \<open>None\<close>: the call does not return.\<close>
  "processL1Request env context userMessage =
     (case redactSecrets userMessage of
        None \<Rightarrow> None
      | Some redactedInput \<Rightarrow>
          let safeUserMessage = rd_text redactedInput;
              escalationCheck = triggerCheck context safeUserMessage
          in
          if ec_shouldEscalate escalationCheck \<and> ec_severity escalationCheck = critical
          then Some ([], Inr (handoffResponse escalationCheck))
          else
            let retrieval = [RetrievalCall (ac_tenantId context) safeUserMessage (ragOptions context)];
                chunks = retrieveContext env context safeUserMessage;
                ragContext =
                  (if chunks \<noteq> [] then assembleContext chunks DEFAULT_CONTEXT_TOKENS else []);
                playbook = selectPlaybook env context safeUserMessage
            in
            case buildSystemPrompt env context ragContext playbook of
              Inl e \<Rightarrow> Some (retrieval, Inl e)
            | Inr systemPrompt \<Rightarrow>
                (case askModel env (chatRequest context systemPrompt safeUserMessage) of
                   (asked, Inl e) \<Rightarrow> Some (retrieval @ asked, Inl e)
                 | (asked, Inr completion) \<Rightarrow>
                     map_option (\<lambda>outcome. (retrieval @ asked, outcome))
                       (finishTurn env context escalationCheck chunks playbook completion)))"
section \<open>Text chunker (src/lib/knowledge-base/chunker.ts)\<close>

text \<open>
  The chunker's own \<open>estimateTokens\<close> is the function of the same body in the
  retrieval engine. Token counts and character offsets are \<^typ>\<open>int\<close>.
\<close>

record SectionChunk =
  sc_content :: string
  sc_startChar :: int
  sc_endChar :: int
  sc_tokenEstimate :: int

record TextChunk = SectionChunk +
  tc_index :: nat

record ChunkOptions =
  co_maxTokens :: "int option"
  co_minTokens :: "int option"
  co_overlapTokens :: "int option"

definition sliceFrom :: "string \<Rightarrow> int \<Rightarrow> string" where
  \<comment> \<open>\<open>s.slice(start)\<close>: a negative start counts from the end; \<open>-0\<close> is \<open>0\<close>.\<close>
  "sliceFrom s start =
     (if start < 0 then drop (nat (int (length s) + start)) s else drop (nat start) s)"

fun crlfToLf :: "string \<Rightarrow> string" where
  \<comment> \<open>\<open>.replace(/\r\n/g, '\n')\<close>\<close>
  "crlfToLf (a # b # s) =
     (if a = CHR 0x0D \<and> b = CHR 0x0A then CHR 0x0A # crlfToLf s else a # crlfToLf (b # s))"
| "crlfToLf s = s"

definition tabsToSpaces :: "string \<Rightarrow> string" where
  \<comment> \<open>\<open>.replace(/\t/g, ' ')\<close>\<close>
  "tabsToSpaces s = map (\<lambda>c. if c = CHR 0x09 then CHR '' '' else c) s"

fun collapseSpaces :: "string \<Rightarrow> string" where
  \<comment> \<open>\<open>.replace(/ {2,}/g, ' ')\<close>\<close>
  "collapseSpaces (a # b # s) =
     (if a = CHR '' '' \<and> b = CHR '' '' then collapseSpaces (b # s)
      else a # collapseSpaces (b # s))"
| "collapseSpaces s = s"

definition cleanText :: "string \<Rightarrow> string" where
  "cleanText t = trim (collapseSpaces (tabsToSpaces (crlfToLf t)))"

text \<open>
  \<open>s.split(pattern)\<close> for a pattern that matches at least one character: the pieces
  between the matches, with the text of each match after its piece when the pattern
  is one capturing group. The text is walked as code points and as characters side
  by side; \<open>piece\<close> is the piece read so far.
\<close>

function splitRe :: "bool \<Rightarrow> regex \<Rightarrow> bool \<Rightarrow> position \<Rightarrow> string \<Rightarrow> string \<Rightarrow> string list" where
  "splitRe ci r capture (p, cs) chars piece =
     (case cs of
        [] \<Rightarrow> [piece]
      | n # rest \<Rightarrow>
          (case matchAt ci r (p, cs) of
             Some (p', after) \<Rightarrow>
               if length after < length cs then
                 piece # (if capture then [take (length cs - length after) chars] else [])
                   @ splitRe ci r capture (p', after) (drop (length cs - length after) chars) []
               else splitRe ci r capture (Some n, rest) (drop 1 chars) (piece @ take 1 chars)
           | None \<Rightarrow> splitRe ci r capture (Some n, rest) (drop 1 chars) (piece @ take 1 chars)))"
  by pat_completeness auto
termination
  by (relation "measure (\<lambda>(ci, r, capture, (p, cs), chars, piece). length cs)") auto

definition paragraphBreak :: regex where
  \<comment> \<open>\<open>/\n{2,}/\<close>\<close>
  "paragraphBreak = Rep 2 None (OneOf [(10, 10)])"

definition splitIntoParagraphs :: "string \<Rightarrow> string list" where
  "splitIntoParagraphs t =
     filter (\<lambda>p. trim p \<noteq> []) (splitRe False paragraphBreak False (None, codes t) t [])"

definition sentenceEndings :: regex where
  \<comment> \<open>\<open>/([.!?]+[\s\n]+|[\n]{2,})/g\<close>\<close>
  "sentenceEndings =
     Alt (Seq (Rep 1 None (OneOf [ch CHR ''.'', ch CHR ''!'', ch CHR ''?'']))
              (Rep 1 None (OneOf whitespace)))
         (Rep 2 None (OneOf [(10, 10)]))"

fun searchEnd :: "bool \<Rightarrow> regex \<Rightarrow> nat \<Rightarrow> position \<Rightarrow> nat option" where
  \<comment> \<open>The end index of the first match that starts at index \<open>i\<close> or later.\<close>
  "searchEnd ci r i (p, []) = (case matchAt ci r (p, []) of None \<Rightarrow> None | Some e \<Rightarrow> Some i)"
| "searchEnd ci r i (p, n # s) =
     (case matchAt ci r (p, n # s) of
        Some (p', rest) \<Rightarrow> Some (i + (length (n # s) - length rest))
      | None \<Rightarrow> searchEnd ci r (i + 1) (Some n, s))"

definition testAt :: "regex \<Rightarrow> string \<Rightarrow> nat \<Rightarrow> bool \<times> nat" where
  \<comment> \<open>\<open>pattern.test(part)\<close> on a global pattern: the search starts at \<open>lastIndex\<close>;
      the result holds the new \<open>lastIndex\<close>.\<close>
  "testAt r part lastIndex =
     (if lastIndex > length part then (False, 0)
      else
        case searchEnd False r lastIndex
               (if lastIndex = 0 then None else Some (codeOf (part ! (lastIndex - 1))),
                codes (drop lastIndex part)) of
          None \<Rightarrow> (False, 0)
        | Some e \<Rightarrow> (True, e))"

definition sentencePart ::
  "string list \<times> string \<times> nat \<Rightarrow> string \<Rightarrow> string list \<times> string \<times> nat" where
  \<comment> \<open>The body of the loop over the parts, with \<open>sentences\<close>, \<open>current\<close> and the
      \<open>lastIndex\<close> of \<open>sentenceEndings\<close>.\<close>
  "sentencePart acc part =
     (case acc of
        (sentences, current, lastIndex) \<Rightarrow>
          (case testAt sentenceEndings part lastIndex of
             (True, li) \<Rightarrow>
               (if trim (current @ part) \<noteq> [] then sentences @ [trim (current @ part)]
                else sentences, [], li)
           | (False, li) \<Rightarrow> (sentences, current @ part, li)))"

definition splitIntoSentences :: "string \<Rightarrow> string list" where
  "splitIntoSentences t =
     (case foldl sentencePart ([], [], 0)
             (splitRe False sentenceEndings True (None, codes t) t []) of
        (sentences, current, lastIndex) \<Rightarrow>
          if trim current \<noteq> [] then sentences @ [trim current] else sentences)"

definition getOverlapText :: "string \<Rightarrow> int \<Rightarrow> string" where
  "getOverlapText t overlapTokens =
     (let targetChars = overlapTokens * 4 in
      if int (length t) \<le> targetChars then t
      else
        let endPortion = sliceFrom t (- (targetChars * 2));
            sentences = splitIntoSentences endPortion
        in if length sentences > 1 then
             let overlap =
                   foldl (\<lambda>ov i. let candidate = joinWith '' '' (drop i sentences)
                                  in if int (length candidate) \<le> targetChars then candidate else ov)
                     [] (rev [0..<length sentences])
             in if overlap \<noteq> [] then overlap else sliceFrom t (- targetChars)
           else sliceFrom t (- targetChars))"

record ChunkerState =
  cs_chunks :: "SectionChunk list"
  cs_currentChunk :: string
  cs_currentStartChar :: int
  cs_charOffset :: int

definition pushChunk :: "ChunkerState \<Rightarrow> int \<Rightarrow> ChunkerState" where
  \<comment> \<open>\<open>chunks.push\<close> of the running chunk, with the token estimate given.\<close>
  "pushChunk st tokens =
     st\<lparr> cs_chunks := cs_chunks st @
            [\<lparr> sc_content = trim (cs_currentChunk st), sc_startChar = cs_currentStartChar st,
               sc_endChar = cs_charOffset st, sc_tokenEstimate = tokens \<rparr>] \<rparr>"

definition sentenceOverflows :: "int \<Rightarrow> string \<Rightarrow> string \<Rightarrow> bool" where
  \<comment> \<open>\<open>chunkTokens + sentenceTokens > maxTokens && sentenceChunk.trim()\<close>\<close>
  "sentenceOverflows maxTokens sentenceChunk sentence =
     (estimateTokens sentenceChunk + estimateTokens sentence > maxTokens
      \<and> trim sentenceChunk \<noteq> [])"

definition sentenceStep :: "int \<Rightarrow> int \<Rightarrow> ChunkerState \<Rightarrow> string \<Rightarrow> ChunkerState" where
  \<comment> \<open>The body of the loop over the sentences of a paragraph that is too big; the
      running chunk of the state is \<open>sentenceChunk\<close>, its start \<open>sentenceStartChar\<close>.\<close>
  "sentenceStep maxTokens overlapTokens st sentence =
     (let chunkTokens = estimateTokens (cs_currentChunk st);
          st1 =
            (if sentenceOverflows maxTokens (cs_currentChunk st) sentence then
               let overlapText = getOverlapText (cs_currentChunk st) overlapTokens
               in (pushChunk st chunkTokens)
                    \<lparr> cs_currentChunk := overlapText @ '' '' @ sentence,
                      cs_currentStartChar := cs_charOffset st - int (length overlapText) \<rparr>
             else
               st\<lparr> cs_currentChunk :=
                     cs_currentChunk st @ (if cs_currentChunk st \<noteq> [] then '' '' else []) @ sentence \<rparr>)
      in st1\<lparr> cs_charOffset := cs_charOffset st1 + int (length sentence) + 1 \<rparr>)"

definition paragraphStep :: "int \<Rightarrow> int \<Rightarrow> ChunkerState \<Rightarrow> string \<Rightarrow> ChunkerState" where
  \<comment> \<open>The body of the loop over the paragraphs of a section.\<close>
  "paragraphStep maxTokens overlapTokens st paragraph =
     (let paragraphTokens = estimateTokens paragraph;
          currentTokens = estimateTokens (cs_currentChunk st)
      in
      if paragraphTokens > maxTokens then
        let flushed =
              (if trim (cs_currentChunk st) \<noteq> []
               then (pushChunk st (estimateTokens (cs_currentChunk st)))\<lparr> cs_currentChunk := [] \<rparr>
               else st);
            inner =
              foldl (sentenceStep maxTokens overlapTokens)
                (flushed\<lparr> cs_currentChunk := [], cs_currentStartChar := cs_charOffset flushed \<rparr>)
                (splitIntoSentences paragraph)
        in if trim (cs_currentChunk inner) \<noteq> [] then inner
           else inner\<lparr> cs_currentChunk := cs_currentChunk flushed,
                       cs_currentStartChar := cs_currentStartChar flushed \<rparr>
      else if currentTokens + paragraphTokens > maxTokens then
        let pushed = (if trim (cs_currentChunk st) \<noteq> [] then pushChunk st currentTokens else st);
            overlapText = getOverlapText (cs_currentChunk st) overlapTokens
        in pushed\<lparr> cs_currentChunk := overlapText @ ''\<newline>\<newline>'' @ paragraph,
                    cs_currentStartChar := cs_charOffset st - int (length overlapText),
                    cs_charOffset := cs_charOffset st + int (length paragraph) + 2 \<rparr>
      else
        st\<lparr> cs_currentChunk :=
              cs_currentChunk st
                @ (if cs_currentChunk st \<noteq> [] then ''\<newline>\<newline>'' else []) @ paragraph,
            cs_charOffset := cs_charOffset st + int (length paragraph) + 2 \<rparr>)"

definition mergeTail :: "SectionChunk list \<Rightarrow> ChunkerState \<Rightarrow> SectionChunk list" where
  \<comment> \<open>The short last chunk goes into the chunk before it.\<close>
  "mergeTail chunks st =
     (let lastChunk = last chunks;
          content = sc_content lastChunk @ ''\<newline>\<newline>'' @ trim (cs_currentChunk st)
      in butlast chunks @
           [lastChunk\<lparr> sc_content := content, sc_endChar := cs_charOffset st,
                        sc_tokenEstimate := estimateTokens content \<rparr>])"

definition finishSection :: "int \<Rightarrow> ChunkerState \<Rightarrow> SectionChunk list" where
  \<comment> \<open>What follows the loop over the paragraphs.\<close>
  "finishSection minTokens st =
     (if trim (cs_currentChunk st) \<noteq> [] \<and> estimateTokens (cs_currentChunk st) \<ge> minTokens
      then cs_chunks (pushChunk st (estimateTokens (cs_currentChunk st)))
      else if trim (cs_currentChunk st) \<noteq> [] \<and> cs_chunks st \<noteq> []
      then mergeTail (cs_chunks st) st
      else if trim (cs_currentChunk st) \<noteq> []
      then cs_chunks (pushChunk st (estimateTokens (cs_currentChunk st)))
      else cs_chunks st)"

definition chunkSection :: "string \<Rightarrow> int \<Rightarrow> int \<Rightarrow> int \<Rightarrow> SectionChunk list" where
  "chunkSection t maxTokens minTokens overlapTokens =
     finishSection minTokens
       (foldl (paragraphStep maxTokens overlapTokens)
          \<lparr> cs_chunks = [], cs_currentChunk = [], cs_currentStartChar = 0, cs_charOffset = 0 \<rparr>
          (splitIntoParagraphs t))"

definition headerPattern :: regex where
  \<comment> \<open>\<open>/^(#{1,6})\s+(.+)$/gm\<close>; the dot is any character but a line terminator.\<close>
  "headerPattern =
     seqs [LineStart, Rep 1 (Some 6) (OneOf [ch CHR ''#'']), Rep 1 None (OneOf whitespace),
           Rep 1 None (NoneOf [(10, 10), (13, 13)]), LineEnd]"

definition headerAhead :: "position \<Rightarrow> bool" where
  \<comment> \<open>The look-ahead \<open>(?=^#{1,6}\s+)\<close> with the \<open>m\<close> flag.\<close>
  "headerAhead pos =
     (matchAt False (seqs [LineStart, Rep 1 (Some 6) (OneOf [ch CHR ''#'']),
                           Rep 1 None (OneOf whitespace)]) pos \<noteq> None)"

fun splitAtHeaders :: "position \<Rightarrow> string \<Rightarrow> string \<Rightarrow> string list" where
  \<comment> \<open>\<open>split\<close> at the look-ahead: a cut before every header that does not start
      the piece.\<close>
  "splitAtHeaders (p, []) chars piece = [piece]"
| "splitAtHeaders (p, n # rest) chars piece =
     (if piece \<noteq> [] \<and> headerAhead (p, n # rest)
      then piece # splitAtHeaders (Some n, rest) (drop 1 chars) (take 1 chars)
      else splitAtHeaders (Some n, rest) (drop 1 chars) (piece @ take 1 chars))"

definition sectionsOf :: "string \<Rightarrow> string list" where
  \<comment> \<open>The sections of a cleaned text: cut at the headers when it has one, else the
      whole text.\<close>
  "sectionsOf clean =
     (if testRegex False headerPattern clean
      then filter (\<lambda>s. trim s \<noteq> []) (splitAtHeaders (None, codes clean) clean [])
      else [clean])"

definition withIndex :: "nat \<Rightarrow> int \<Rightarrow> SectionChunk list \<Rightarrow> TextChunk list" where
  \<comment> \<open>The chunks of one section, numbered from \<open>start\<close> and moved by \<open>charOffset\<close>.\<close>
  "withIndex start charOffset sectionChunks =
     map (\<lambda>(i, c). \<lparr> sc_content = sc_content c, sc_startChar = charOffset + sc_startChar c,
                      sc_endChar = charOffset + sc_endChar c,
                      sc_tokenEstimate = sc_tokenEstimate c, tc_index = start + i \<rparr>)
         (zip [0..<length sectionChunks] sectionChunks)"

definition addSection ::
  "int \<Rightarrow> int \<Rightarrow> int \<Rightarrow> TextChunk list \<times> int \<Rightarrow> string \<Rightarrow> TextChunk list \<times> int" where
  \<comment> \<open>The body of the loop over the sections, with \<open>chunks\<close> and \<open>charOffset\<close>.\<close>
  "addSection maxTokens minTokens overlapTokens acc section =
     (case acc of
        (chunks, charOffset) \<Rightarrow>
          (chunks @ withIndex (length chunks) charOffset
                      (chunkSection section maxTokens minTokens overlapTokens),
           charOffset + int (length section)))"

definition maxTokensOf :: "ChunkOptions \<Rightarrow> int" where
  "maxTokensOf options = (case co_maxTokens options of None \<Rightarrow> 500 | Some v \<Rightarrow> v)"

definition minTokensOf :: "ChunkOptions \<Rightarrow> int" where
  "minTokensOf options = (case co_minTokens options of None \<Rightarrow> 100 | Some v \<Rightarrow> v)"

definition overlapTokensOf :: "ChunkOptions \<Rightarrow> int" where
  "overlapTokensOf options = (case co_overlapTokens options of None \<Rightarrow> 50 | Some v \<Rightarrow> v)"

definition chunkText :: "string \<Rightarrow> ChunkOptions \<Rightarrow> TextChunk list" where
  "chunkText t options =
     (let maxTokens = maxTokensOf options;
          minTokens = minTokensOf options;
          overlapTokens = overlapTokensOf options;
          clean = cleanText t
      in if clean = [] then []
         else if testRegex False headerPattern clean
         then fst (foldl (addSection maxTokens minTokens overlapTokens) ([], 0) (sectionsOf clean))
         else withIndex 0 0 (chunkSection clean maxTokens minTokens overlapTokens))"

definition sentencesMet :: "string \<Rightarrow> int \<Rightarrow> string list" where
  \<comment> \<open>The sentences that \<open>chunkText\<close> reads: those of every paragraph, of every section
      of the cleaned text, that is estimated above \<open>maxTokens\<close>.\<close>
  "sentencesMet t maxTokens =
     concat (map (\<lambda>part.
               concat (map splitIntoSentences
                         (filter (\<lambda>paragraph. estimateTokens paragraph > maxTokens)
                            (splitIntoParagraphs part))))
            (sectionsOf (cleanText t)))"

definition holdsOversized :: "int \<Rightarrow> string list \<Rightarrow> string \<Rightarrow> bool" where
  \<comment> \<open>The content contains one of the sentences, and that sentence alone is estimated
      above \<open>maxTokens\<close>.\<close>
  "holdsOversized maxTokens sentences content =
     list_ex (\<lambda>sentence. estimateTokens sentence > maxTokens \<and> includesStr content sentence)
       sentences"

definition solid :: "string \<Rightarrow> bool" where
  \<comment> \<open>Not empty, with no white space at either end: what \<open>trim\<close> returns when it
      returns something.\<close>
  "solid s = (s \<noteq> [] \<and> \<not> isJsSpace (hd s) \<and> \<not> isJsSpace (last s))"

definition bounded :: "int \<Rightarrow> string set \<Rightarrow> ChunkerState \<Rightarrow> bool" where
  \<comment> \<open>The invariant of the loops of \<open>chunkSection\<close>, with \<open>E\<close> the sentences that are
      too big: a stored chunk has an estimate of at most \<open>b\<close>, which is not below that
      of its content, or its content contains a sentence of \<open>E\<close>; the running chunk
      is empty, or estimated at most \<open>b\<close>, or contains a sentence of \<open>E\<close>.\<close>
  "bounded b E st =
     ((\<forall>c \<in> set (cs_chunks st).
          (estimateTokens (sc_content c) \<le> sc_tokenEstimate c \<and> sc_tokenEstimate c \<le> b)
          \<or> (\<exists>e \<in> E. sublist e (sc_content c)))
      \<and> (cs_currentChunk st = [] \<or> estimateTokens (cs_currentChunk st) \<le> b
           \<or> (\<exists>e \<in> E. sublist e (cs_currentChunk st))))"

definition tightOptions :: ChunkOptions where
  "tightOptions = \<lparr> co_maxTokens = Some 2, co_minTokens = Some 1, co_overlapTokens = Some 1 \<rparr>"

definition routerOptions :: ChunkOptions where
  "routerOptions = \<lparr> co_maxTokens = Some 6, co_minTokens = Some 3, co_overlapTokens = Some 1 \<rparr>"

definition manualText :: string where
  \<comment> \<open>Two short sentences around one of 68 characters (17 tokens), then a short paragraph.\<close>
  "manualText = ''Setup. Restart the router and wait until every light on the front is green. Then log in again.\<newline>\<newline>Call us.''"

definition noOverlapOptions :: ChunkOptions where
  "noOverlapOptions = \<lparr> co_maxTokens = Some 2, co_minTokens = Some 1, co_overlapTokens = Some 0 \<rparr>"
section \<open>Properties of the playbook engine\<close>

definition restartStep :: PlaybookStep where
  "restartStep =
     \<lparr> step_id = ''restart'', step_title = ''Restart the app'',
       step_instruction = ''Close the app and open it again'',
       step_expectedOutcome = None, step_failureHint = None,
       step_nextOnSuccess = Some ''relogin'', step_nextOnFailure = None,
       step_escalateOnFailure = None, step_requiresConfirmation = None,
       step_maxAttempts = Some 2, step_timeout = None \<rparr>"

definition reloginStep :: PlaybookStep where
  "reloginStep =
     \<lparr> step_id = ''relogin'', step_title = ''Sign in again'',
       step_instruction = ''Sign out and sign in again'',
       step_expectedOutcome = None, step_failureHint = None,
       step_nextOnSuccess = None, step_nextOnFailure = None,
       step_escalateOnFailure = None, step_requiresConfirmation = None,
       step_maxAttempts = None, step_timeout = None \<rparr>"

definition loginPlaybook :: Playbook where
  "loginPlaybook =
     \<lparr> pb_metadata =
         \<lparr> meta_id = ''login-issues'', meta_name = ''Login issues'', meta_version = ''1.0'',
           meta_product = ''AI Factory'', meta_category = ''login'', meta_language = ''en'' \<rparr>,
       pb_triggers = \<lparr> trg_keywords = None, trg_categories = None, trg_products = None \<rparr>,
       pb_steps = [restartStep, reloginStep],
       pb_defaultMessage = ''This issue requires human assistance.'',
       pb_conditions = [], pb_variables = None \<rparr>"

definition afterTwoFailures :: PlaybookExecutionState where
  \<comment> \<open>The state after two calls with \<open>failure\<close> on the first step.\<close>
  "afterTwoFailures =
     snd (executeStep 2 loginPlaybook
            (snd (executeStep 1 loginPlaybook (createExecutionState 0 loginPlaybook) failure))
            failure)"

definition atSecondStep :: PlaybookExecutionState where
  \<comment> \<open>The state after one call with \<open>success\<close> on the first step.\<close>
  "atSecondStep = snd (executeStep 1 loginPlaybook (createExecutionState 0 loginPlaybook) success)"

definition zeroStep :: PlaybookStep where
  \<comment> \<open>A step that names \<open>maxAttempts: 0\<close>.\<close>
  "zeroStep = restartStep\<lparr> step_id := ''reset'', step_maxAttempts := Some 0 \<rparr>"

definition zeroPlaybook :: Playbook where
  "zeroPlaybook = loginPlaybook\<lparr> pb_steps := [zeroStep] \<rparr>"

definition constructorStep :: PlaybookStep where
  \<comment> \<open>A step whose id is the name of a member that every object inherits.\<close>
  "constructorStep = restartStep\<lparr> step_id := ''constructor'', step_maxAttempts := Some 1 \<rparr>"

definition constructorPlaybook :: Playbook where
  "constructorPlaybook = loginPlaybook\<lparr> pb_steps := [constructorStep] \<rparr>"

lemma executeStep_inherited_name:
  "attemptsAfter (createExecutionState 0 constructorPlaybook) constructorStep
     = Inherited ''constructor'' 1
   \<and> attemptsAfter
         (snd (executeStep 1 constructorPlaybook (createExecutionState 0 constructorPlaybook) failure))
         constructorStep
     = Inherited ''constructor'' 2
   \<and> st_failedSteps
         (snd (executeStep 2 constructorPlaybook
            (snd (executeStep 1 constructorPlaybook
                    (createExecutionState 0 constructorPlaybook) failure)) failure)) = []"
  by (simp add: executeStep_def getCurrentStep_def createExecutionState_def attemptsAfter_def
        readAttempts_def writeAttempts_def objectPrototypeNames_def exceeds_def maxAttemptsOf_def
        orNum_def constructorPlaybook_def constructorStep_def loginPlaybook_def restartStep_def
        Let_def)

text \<open>
  Claim C3, as stated, fails. The threshold is \<open>step.maxAttempts || 3\<close>, which is 3
  also for a step that names \<open>maxAttempts: 0\<close>. On the first failure of such a step
  the incremented count is 1 and exceeds the step's \<open>maxAttempts\<close>, yet the step id is
  not recorded in \<open>failedSteps\<close> and \<open>shouldEscalate\<close> is false, where
  \<open>escalateOnFailure ?? true\<close> is true.
\<close>

theorem executeStep_zero_maxAttempts:
  "getCurrentStep zeroPlaybook (createExecutionState 0 zeroPlaybook) = Some zeroStep
   \<and> attemptsAfter (createExecutionState 0 zeroPlaybook) zeroStep = Number 1
   \<and> step_maxAttempts zeroStep = Some 0
   \<and> st_failedSteps (snd (executeStep 1 zeroPlaybook (createExecutionState 0 zeroPlaybook) failure))
        = []
   \<and> res_shouldEscalate
        (fst (executeStep 1 zeroPlaybook (createExecutionState 0 zeroPlaybook) failure)) = False
   \<and> nullishBool (step_escalateOnFailure zeroStep) True = True"
  by (simp add: executeStep_def getCurrentStep_def createExecutionState_def attemptsAfter_def
        readAttempts_def writeAttempts_def objectPrototypeNames_def exceeds_def maxAttemptsOf_def
        orNum_def nullishBool_def zeroPlaybook_def zeroStep_def loginPlaybook_def restartStep_def
        Let_def)

text \<open>
  Claim C3, amended. Whenever the current step resolves, \<open>executeStep\<close> is called with
  \<open>failure\<close>, and the incremented attempt count of the step is a number above
  \<open>step.maxAttempts || 3\<close> (3 when the step names no \<open>maxAttempts\<close>, and also when it
  names \<open>0\<close>), the step id is appended to \<open>failedSteps\<close> and the result's
  \<open>shouldEscalate\<close> is \<open>step.escalateOnFailure ?? true\<close>, that is, true unless
  \<open>escalateOnFailure\<close> is \<open>false\<close>. The count is not a number when the step id names a
  member inherited from \<open>Object.prototype\<close>; nothing is stated for such a step.
\<close>

theorem executeStep_max_attempts_exceeded:
  assumes "getCurrentStep playbook state = Some step"
      and "attemptsAfter state step = Number a"
      and "a > maxAttemptsOf step"
  shows "st_failedSteps (snd (executeStep now playbook state failure))
           = st_failedSteps state @ [step_id step]
       \<and> res_shouldEscalate (fst (executeStep now playbook state failure))
           = nullishBool (step_escalateOnFailure step) True
       \<and> res_shouldEscalate (fst (executeStep now playbook state failure))
           = (step_escalateOnFailure step \<noteq> Some False)"
  using assms
  by (simp add: executeStep_def exceeds_def Let_def nullishBool_def split: option.splits)

theorem executeStep_max_attempts_exceeded_witness:
  "getCurrentStep loginPlaybook afterTwoFailures = Some restartStep
   \<and> attemptsAfter afterTwoFailures restartStep = Number 3
   \<and> maxAttemptsOf restartStep = 2
   \<and> st_failedSteps (snd (executeStep 3 loginPlaybook afterTwoFailures failure)) = [''restart'']
   \<and> res_shouldEscalate (fst (executeStep 3 loginPlaybook afterTwoFailures failure)) = True"
proof -
  note defs = afterTwoFailures_def executeStep_def getCurrentStep_def createExecutionState_def
          loginPlaybook_def restartStep_def reloginStep_def attemptsAfter_def maxAttemptsOf_def
          readAttempts_def writeAttempts_def objectPrototypeNames_def exceeds_def addOne_def
          roundToDouble_def
          orNum_def Let_def
  have cur: "getCurrentStep loginPlaybook afterTwoFailures = Some restartStep"
    by (simp add: defs)
  have att: "attemptsAfter afterTwoFailures restartStep = Number 3"
    by (simp add: defs)
  have mx: "maxAttemptsOf restartStep = 2"
    by (simp add: maxAttemptsOf_def restartStep_def orNum_def)
  have failed0: "st_failedSteps afterTwoFailures = []"
    by (simp add: defs)
  have esc: "step_escalateOnFailure restartStep = None" "step_id restartStep = ''restart''"
    by (simp_all add: restartStep_def)
  have gt: "3 > maxAttemptsOf restartStep"
    using mx by simp
  show ?thesis
    using executeStep_max_attempts_exceeded [OF cur att gt, of 3] cur att mx failed0 esc
    by (simp add: nullishBool_def)
qed

text \<open>
  Claim C4. Whenever the current step resolves, \<open>executeStep\<close> with \<open>success\<close>
  appends the current step id to \<open>completedSteps\<close>; then, if the step has a
  \<open>nextOnSuccess\<close> (the test \<open>if (nextStepId)\<close>: an empty id counts as none, as it
  does for the validator), \<open>currentStepId\<close> becomes that id and the outcome is left
  as it was; otherwise the outcome becomes \<open>resolved\<close> and \<open>currentStepId\<close> stays.
\<close>

theorem executeStep_success:
  assumes "getCurrentStep playbook state = Some step"
  shows "st_completedSteps (snd (executeStep now playbook state success))
           = st_completedSteps state @ [step_id step]
       \<and> (if truthyStr (step_nextOnSuccess step)
            then Some (st_currentStepId (snd (executeStep now playbook state success)))
                   = step_nextOnSuccess step
               \<and> st_outcome (snd (executeStep now playbook state success)) = st_outcome state
            else st_outcome (snd (executeStep now playbook state success)) = Some resolved
               \<and> st_currentStepId (snd (executeStep now playbook state success))
                   = st_currentStepId state)"
  using assms by (simp add: executeStep_def Let_def truthyStr_def split: option.splits)

theorem executeStep_success_witness:
  "getCurrentStep loginPlaybook (createExecutionState 0 loginPlaybook) = Some restartStep
   \<and> st_completedSteps atSecondStep = [''restart'']
   \<and> st_currentStepId atSecondStep = ''relogin''
   \<and> st_outcome atSecondStep = Some in_progress
   \<and> getCurrentStep loginPlaybook atSecondStep = Some reloginStep
   \<and> st_completedSteps (snd (executeStep 2 loginPlaybook atSecondStep success))
        = [''restart'', ''relogin'']
   \<and> st_outcome (snd (executeStep 2 loginPlaybook atSecondStep success)) = Some resolved"
proof -
  have cur0: "getCurrentStep loginPlaybook (createExecutionState 0 loginPlaybook) = Some restartStep"
    by (simp add: getCurrentStep_def createExecutionState_def loginPlaybook_def restartStep_def)
  have init: "st_completedSteps (createExecutionState 0 loginPlaybook) = []"
             "st_outcome (createExecutionState 0 loginPlaybook) = Some in_progress"
    by (simp_all add: createExecutionState_def)
  have nxt: "step_nextOnSuccess restartStep = Some ''relogin''" "step_id restartStep = ''restart''"
            "step_nextOnSuccess reloginStep = None" "step_id reloginStep = ''relogin''"
    by (simp_all add: restartStep_def reloginStep_def)
  have first: "st_completedSteps atSecondStep = [''restart'']
             \<and> st_currentStepId atSecondStep = ''relogin''
             \<and> st_outcome atSecondStep = Some in_progress"
    using executeStep_success [OF cur0, of 1] init nxt
    by (simp add: atSecondStep_def truthyStr_def)
  have cur1: "getCurrentStep loginPlaybook atSecondStep = Some reloginStep"
    using first
    by (simp add: getCurrentStep_def loginPlaybook_def restartStep_def reloginStep_def)
  show ?thesis
    using executeStep_success [OF cur1, of 2] first cur0 cur1 nxt
    by (simp add: truthyStr_def)
qed

section \<open>Properties of the embedding and similarity service\<close>

lemma sortBy_sorted_id: "sorted_wrt le xs \<Longrightarrow> sortBy le xs = xs"
proof (induction xs)
  case Nil
  then show ?case by (simp add: sortBy_def)
next
  case (Cons x xs)
  then have "sortBy le xs = xs" by simp
  then have "sortBy le (x # xs) = insertBy le x xs" by (simp add: sortBy_def)
  moreover have "insertBy le x xs = x # xs" using Cons.prems by (cases xs) auto
  ultimately show ?case by simp
qed

lemma sortBy_length: "length (sortBy le xs) = length xs"
proof -
  have "length (insertBy le x ys) = Suc (length ys)" for x ys by (induction ys) auto
  then show ?thesis by (induction xs) (auto simp: sortBy_def)
qed

lemma batchResults_exact:
  assumes "length dat = length batch"
  shows "length (batchResults batch (map (\<lambda>idx. i + idx) [0..<length batch]) dat) = length batch"
    and "j < length batch \<Longrightarrow>
         batchResults batch (map (\<lambda>idx. i + idx) [0..<length batch]) dat ! j
           = \<lparr> er_text = Some (batch ! j), er_embedding = dat ! j, er_index = Some (i + j) \<rparr>"
  using assms by (simp_all add: batchResults_def nthOpt_def)

lemma batchAt_nth:
  assumes "k * MAX_BATCH_SIZE \<le> n" and "n < length texts" and "n < k * MAX_BATCH_SIZE + MAX_BATCH_SIZE"
  shows "batchAt texts k ! (n - k * MAX_BATCH_SIZE) = texts ! n"
    and "n div MAX_BATCH_SIZE = k" and "n mod MAX_BATCH_SIZE = n - k * MAX_BATCH_SIZE"
proof -
  have "k * MAX_BATCH_SIZE + (n - k * MAX_BATCH_SIZE) = n" using assms(1) by simp
  then show "batchAt texts k ! (n - k * MAX_BATCH_SIZE) = texts ! n"
    using assms by (simp add: batchAt_def)
  have pos: "0 < MAX_BATCH_SIZE" by (simp add: MAX_BATCH_SIZE_def)
  obtain r where r: "n = k * MAX_BATCH_SIZE + r" "r < MAX_BATCH_SIZE"
    using assms(1,3) by (metis add_diff_inverse_nat less_diff_conv2 not_less add.commute)
  show "n div MAX_BATCH_SIZE = k" using r pos by simp
  show "n mod MAX_BATCH_SIZE = n - k * MAX_BATCH_SIZE" using r pos by simp
qed

lemma batches_upt:
  "k * MAX_BATCH_SIZE < n \<Longrightarrow>
     [k..<(n + 99) div MAX_BATCH_SIZE] = k # [Suc k..<(n + 99) div MAX_BATCH_SIZE]"
  "\<not> k * MAX_BATCH_SIZE < n \<Longrightarrow> [k..<(n + 99) div MAX_BATCH_SIZE] = []"
proof -
  show "k * MAX_BATCH_SIZE < n \<Longrightarrow>
     [k..<(n + 99) div MAX_BATCH_SIZE] = k # [Suc k..<(n + 99) div MAX_BATCH_SIZE]"
    unfolding MAX_BATCH_SIZE_def by (intro upt_conv_Cons) arith
  show "\<not> k * MAX_BATCH_SIZE < n \<Longrightarrow> [k..<(n + 99) div MAX_BATCH_SIZE] = []"
    unfolding MAX_BATCH_SIZE_def by simp
qed

lemma embedBatches_inv:
  assumes "answersBatches client"
      and "i = k * MAX_BATCH_SIZE"
      and "length results = min i (length texts)"
      and "embedded client texts results"
  shows "\<exists>rs. embedBatches client texts i results
                = (map (batchAt texts) [k..<(length texts + 99) div MAX_BATCH_SIZE], Inr rs)
            \<and> length rs = length texts \<and> embedded client texts rs"
  using assms
proof (induction client texts i results arbitrary: k rule: embedBatches.induct)
  case (1 client texts i results)
  show ?case
  proof (cases "i < length texts")
    case False
    with "1.prems" batches_upt(2)[of k "length texts"] show ?thesis by (simp add: min_def)
  next
    case True
    define batch where "batch = take MAX_BATCH_SIZE (drop i texts)"
    define bi where "bi = map (\<lambda>idx. i + idx) [0..<length batch]"
    have batch: "batch = batchAt texts k" using "1.prems"(2) by (simp add: batch_def batchAt_def)
    have lb: "length batch = min MAX_BATCH_SIZE (length texts - i)" by (simp add: batch_def)
    then have "batch \<noteq> []" "length batch \<le> MAX_BATCH_SIZE"
      using True by (auto simp: MAX_BATCH_SIZE_def)
    then obtain dat where d: "client batch = Inr dat" "length dat = length batch"
      using "1.prems"(1) unfolding answersBatches_def by blast
    define results' where "results' = results @ batchResults batch bi dat"
    have lr: "length results = i" using "1.prems"(3) True by simp
    have "length results' = i + length batch"
      using batchResults_exact(1)[OF d(2), of i] lr by (simp add: results'_def bi_def)
    then have len': "length results' = min (i + MAX_BATCH_SIZE) (length texts)"
      using lb True by arith
    have ord': "embedded client texts results'"
      unfolding embedded_def
    proof (intro allI impI)
      fix n assume n: "n < length results'"
      show "er_index (results' ! n) = Some n \<and> er_text (results' ! n) = nthOpt texts n
            \<and> (\<exists>dat. client (batchAt texts (n div MAX_BATCH_SIZE)) = Inr dat
                  \<and> n mod MAX_BATCH_SIZE < length dat
                  \<and> er_embedding (results' ! n) = dat ! (n mod MAX_BATCH_SIZE))"
      proof (cases "n < i")
        case True
        then show ?thesis
          using "1.prems"(4) lr by (simp add: results'_def embedded_def nth_append)
      next
        case False
        then have nb: "n - i < length batch"
          using n batchResults_exact(1)[OF d(2), of i] lr by (simp add: results'_def bi_def)
        have bounds: "k * MAX_BATCH_SIZE \<le> n" "n < length texts"
                     "n < k * MAX_BATCH_SIZE + MAX_BATCH_SIZE"
          using False nb lb "1.prems"(2) by arith+
        have "i + (n - i) = n" using False by simp
        then have "results' ! n
            = \<lparr> er_text = Some (batch ! (n - i)), er_embedding = dat ! (n - i), er_index = Some n \<rparr>"
          using batchResults_exact(2)[OF d(2) nb, of i] False lr
          by (simp add: results'_def bi_def nth_append)
        then show ?thesis
          using batchAt_nth[OF bounds] d nb bounds(2) "1.prems"(2) batch
          by (simp add: nthOpt_def)
      qed
    qed
    have next_k: "i + MAX_BATCH_SIZE = Suc k * MAX_BATCH_SIZE" using "1.prems"(2) by simp
    from "1.IH"[OF True batch_def bi_def d(1) "1.prems"(1) next_k] len' ord'
    obtain rs where rs:
      "embedBatches client texts (i + MAX_BATCH_SIZE) results'
         = (map (batchAt texts) [Suc k..<(length texts + 99) div MAX_BATCH_SIZE], Inr rs)"
      "length rs = length texts" "embedded client texts rs"
      by (auto simp: results'_def)
    have "embedBatches client texts i results
            = (batch # map (batchAt texts) [Suc k..<(length texts + 99) div MAX_BATCH_SIZE], Inr rs)"
      using True d(1) rs(1)
      by (simp add: batch_def[symmetric] bi_def[symmetric] results'_def[symmetric] Let_def)
    moreover have "k * MAX_BATCH_SIZE < length texts" using True "1.prems"(2) by simp
    ultimately show ?thesis
      using rs(2,3) batch batches_upt(1)[of k "length texts"] by simp
  qed
qed

lemma embedded_sorted: "embedded client texts rs \<Longrightarrow> sorted_wrt indexLe rs"
  by (auto simp: sorted_wrt_iff_nth_less embedded_def indexLe_def)

definition echoCreate :: "string list \<Rightarrow> error + nat list" where
  \<comment> \<open>A provider double: the embedding of a text is its length.\<close>
  "echoCreate batch = Inr (map length batch)"

definition lengthsCreate :: "string list \<Rightarrow> error + nat list" where
  \<comment> \<open>A provider double that keeps to the limit of the real one: the embedding of a
      text is its length, and a request of more than 100 inputs is refused.\<close>
  "lengthsCreate batch =
     (if batch = [] \<or> length batch > 100 then Inl (Error ''400 invalid input'')
      else Inr (map length batch))"

definition lengthsEnv :: "nat EmbeddingEnv" where
  "lengthsEnv = \<lparr> OPENAI_API_KEY = Some ''sk-test'', embeddings_create = lengthsCreate \<rparr>"

definition numberedTexts :: "string list" where
  \<comment> \<open>250 texts of different lengths: text \<open>i\<close> is \<open>i\<close> letters.\<close>
  "numberedTexts = map (\<lambda>i. replicate i CHR ''a'') [0..<250]"

text \<open>
  Claim C9. With a configured client whose provider answers every batch of at most
  100 inputs with one embedding per input, \<open>generateEmbeddings\<close> sends the texts in
  runs of 100, in order (so no batch is above 100), and returns exactly one result
  per text: result \<open>i\<close> carries index \<open>i\<close>, text \<open>texts[i]\<close> and the embedding that
  the provider returned for that text.
\<close>

theorem generateEmbeddings_order:
  assumes "truthyStr (OPENAI_API_KEY env)"
      and "answersBatches (embeddings_create env)"
  shows "\<exists>rs. generateEmbeddings env texts
                = (map (batchAt texts) [0..<(length texts + 99) div MAX_BATCH_SIZE], Inr rs)
           \<and> length rs = length texts
           \<and> (\<forall>i < length texts.
                 er_index (rs ! i) = Some i \<and> er_text (rs ! i) = Some (texts ! i)
                 \<and> (\<exists>dat. embeddings_create env (batchAt texts (i div MAX_BATCH_SIZE)) = Inr dat
                           \<and> i mod MAX_BATCH_SIZE < length dat
                           \<and> er_embedding (rs ! i) = dat ! (i mod MAX_BATCH_SIZE)))
           \<and> (\<forall>k < (length texts + 99) div MAX_BATCH_SIZE.
                 batchAt texts k \<noteq> [] \<and> length (batchAt texts k) \<le> MAX_BATCH_SIZE)"
proof -
  have "embedded (embeddings_create env) texts []" by (simp add: embedded_def)
  from embedBatches_inv[OF assms(2) _ _ this, where i = 0 and k = 0]
  obtain rs where rs:
      "embedBatches (embeddings_create env) texts 0 []
         = (map (batchAt texts) [0..<(length texts + 99) div MAX_BATCH_SIZE], Inr rs)"
      "length rs = length texts" "embedded (embeddings_create env) texts rs" by auto
  have "sortBy indexLe rs = rs" using embedded_sorted[OF rs(3)] by (rule sortBy_sorted_id)
  then have "generateEmbeddings env texts
               = (map (batchAt texts) [0..<(length texts + 99) div MAX_BATCH_SIZE], Inr rs)"
    using assms(1) rs(1) by (simp add: generateEmbeddings_def getOpenAIClient_def)
  moreover have "batchAt texts k \<noteq> [] \<and> length (batchAt texts k) \<le> MAX_BATCH_SIZE"
    if "k < (length texts + 99) div MAX_BATCH_SIZE" for k
  proof -
    have "k * MAX_BATCH_SIZE < length texts"
      using that unfolding MAX_BATCH_SIZE_def by arith
    then show ?thesis by (simp add: batchAt_def MAX_BATCH_SIZE_def)
  qed
  ultimately show ?thesis using rs(2,3) by (auto simp: embedded_def nthOpt_def)
qed

theorem generateEmbeddings_order_witness:
  "truthyStr (OPENAI_API_KEY lengthsEnv) \<and> answersBatches (embeddings_create lengthsEnv)
   \<and> (\<exists>rs. generateEmbeddings lengthsEnv numberedTexts
              = ([take 100 numberedTexts, take 100 (drop 100 numberedTexts),
                  drop 200 numberedTexts], Inr rs)
          \<and> map er_index rs = map Some [0..<250]
          \<and> map er_text rs = map Some numberedTexts
          \<and> map er_embedding rs = [0..<250])"
proof -
  have key: "truthyStr (OPENAI_API_KEY lengthsEnv)" by (simp add: lengthsEnv_def truthyStr_def)
  have prov: "answersBatches (embeddings_create lengthsEnv)"
    by (auto simp: answersBatches_def lengthsEnv_def lengthsCreate_def MAX_BATCH_SIZE_def)
  have len: "length numberedTexts = 250" by (simp add: numberedTexts_def)
  have upt: "[0..<(250 + 99) div MAX_BATCH_SIZE] = [0, 1, 2]"
    by (simp add: MAX_BATCH_SIZE_def upt_rec)
  from generateEmbeddings_order[OF key prov, where texts = numberedTexts]
  obtain rs where rs:
     "generateEmbeddings lengthsEnv numberedTexts = (map (batchAt numberedTexts) [0, 1, 2], Inr rs)"
     "length rs = 250"
     "\<forall>i<250. er_index (rs ! i) = Some i \<and> er_text (rs ! i) = Some (numberedTexts ! i)
        \<and> (\<exists>dat. lengthsCreate (batchAt numberedTexts (i div MAX_BATCH_SIZE)) = Inr dat
                \<and> i mod MAX_BATCH_SIZE < length dat
                \<and> er_embedding (rs ! i) = dat ! (i mod MAX_BATCH_SIZE))"
    unfolding len upt by (auto simp: lengthsEnv_def)
  have calls: "map (batchAt numberedTexts) [0, 1, 2]
                 = [take 100 numberedTexts, take 100 (drop 100 numberedTexts), drop 200 numberedTexts]"
    using len by (simp add: batchAt_def MAX_BATCH_SIZE_def)
  have emb: "er_embedding (rs ! i) = i" if i: "i < 250" for i
  proof -
    let ?k = "i div MAX_BATCH_SIZE"
    have bounds: "?k * MAX_BATCH_SIZE \<le> i" "i < length numberedTexts"
                 "i < ?k * MAX_BATCH_SIZE + MAX_BATCH_SIZE"
      using i len by (simp_all add: MAX_BATCH_SIZE_def)
    have ne: "batchAt numberedTexts ?k \<noteq> []" "length (batchAt numberedTexts ?k) \<le> 100"
      using bounds len by (auto simp: batchAt_def MAX_BATCH_SIZE_def)
    then have ans: "lengthsCreate (batchAt numberedTexts ?k) = Inr (map length (batchAt numberedTexts ?k))"
      by (simp add: lengthsCreate_def)
    from rs(3) i obtain dat where dat:
      "lengthsCreate (batchAt numberedTexts ?k) = Inr dat" "i mod MAX_BATCH_SIZE < length dat"
      "er_embedding (rs ! i) = dat ! (i mod MAX_BATCH_SIZE)" by blast
    have "dat ! (i mod MAX_BATCH_SIZE)
            = length (batchAt numberedTexts ?k ! (i - ?k * MAX_BATCH_SIZE))"
      using dat(1,2) ans batchAt_nth(3)[OF bounds] by auto
    also have "\<dots> = length (numberedTexts ! i)" using batchAt_nth(1)[OF bounds] by simp
    also have "\<dots> = i" using i by (simp add: numberedTexts_def)
    finally show ?thesis using dat(3) by simp
  qed
  have "map er_index rs = map Some [0..<250]"
    using rs(2,3) by (intro nth_equalityI) auto
  moreover have "map er_text rs = map Some numberedTexts"
    using rs(2,3) len by (intro nth_equalityI) auto
  moreover have "map er_embedding rs = [0..<250]"
    using rs(2) emb by (intro nth_equalityI) auto
  ultimately show ?thesis using key prov rs(1) calls by simp
qed

lemma cosineLoop_split:
  "length a = length b \<Longrightarrow>
   cosineLoop a b (d, na, nb)
     = (fst (cosineLoop a b (d, na, nb)),
        foldl (\<lambda>s x. numAdd s (numMul x x)) na a,
        foldl (\<lambda>s x. numAdd s (numMul x x)) nb b)"
  by (induction a b arbitrary: d na nb rule: list_induct2) auto

lemma sumSquares_zeros: "set v \<subseteq> {Num 0} \<Longrightarrow> sumSquares v = Num 0"
proof -
  have "set v \<subseteq> {Num 0} \<Longrightarrow> foldl (\<lambda>s x. numAdd s (numMul x x)) (Num 0) v = Num 0"
    by (induction v) auto
  then show "set v \<subseteq> {Num 0} \<Longrightarrow> sumSquares v = Num 0" by (simp add: sumSquares_def)
qed

text \<open>
  Claim C10. On two vectors of one length \<open>cosineSimilarity\<close> returns a number and
  throws nothing; when the norm of either vector is zero (the all-zeros vector, for
  one) it returns \<open>0\<close>, whatever the other vector holds: the division by the product
  of the norms is behind the guard and is not reached.
\<close>

theorem cosineSimilarity_zero_norm:
  assumes "length a = length b"
  shows "(\<exists>v. cosineSimilarity a b = Inr v)
       \<and> (vectorNorm a = Num 0 \<or> vectorNorm b = Num 0
            \<longrightarrow> cosineSimilarity a b = Inr (Num 0))
       \<and> (set a \<subseteq> {Num 0} \<or> set b \<subseteq> {Num 0} \<longrightarrow> cosineSimilarity a b = Inr (Num 0))"
proof -
  obtain d where loop: "cosineLoop a b (Num 0, Num 0, Num 0) = (d, sumSquares a, sumSquares b)"
    using cosineLoop_split[OF assms, of "Num 0" "Num 0" "Num 0"] by (simp add: sumSquares_def)
  have total: "\<exists>v. cosineSimilarity a b = Inr v"
    using assms loop by (simp add: cosineSimilarity_def Let_def)
  have guard: "vectorNorm a = Num 0 \<or> vectorNorm b = Num 0
                 \<Longrightarrow> cosineSimilarity a b = Inr (Num 0)"
    using assms loop by (auto simp: cosineSimilarity_def Let_def vectorNorm_def)
  have zeros: "set v \<subseteq> {Num 0} \<Longrightarrow> vectorNorm v = Num 0" for v
    by (simp add: vectorNorm_def sumSquares_zeros)
  show ?thesis using total guard zeros by blast
qed

theorem cosineSimilarity_zero_norm_witness:
  "length [Num 0, Num 0, Num 0] = length [Num 1, Num 2, NaN]
   \<and> vectorNorm [Num 0, Num 0, Num 0] = Num 0
   \<and> cosineSimilarity [Num 0, Num 0, Num 0] [Num 1, Num 2, NaN] = Inr (Num 0)
   \<and> cosineSimilarity [Num 3, Num 4] [Num 0, Num 0] = Inr (Num 0)"
  using cosineSimilarity_zero_norm [of "[Num 0, Num 0, Num 0]" "[Num 1, Num 2, NaN]"]
        cosineSimilarity_zero_norm [of "[Num 3, Num 4]" "[Num 0, Num 0]"]
  by (simp add: vectorNorm_def sumSquares_def)

section \<open>Properties of the retrieval engine\<close>

lemma estimateTokens_len: "int (length s) \<le> 4 * estimateTokens s"
  by (simp add: estimateTokens_def)

lemma sliceTo_len: "0 \<le> e \<Longrightarrow> int (length (sliceTo s e)) \<le> e"
  by (simp add: sliceTo_def)

lemma assembleLoop_len:
  "totalTokens \<le> maxTokens \<Longrightarrow>
   int (length (assembleLoop chunks maxTokens ctx totalTokens))
     \<le> int (length ctx) + 4 * (maxTokens - totalTokens) + 5 * int (length chunks) + 3"
proof (induction chunks arbitrary: ctx totalTokens)
  case Nil
  then show ?case by simp
next
  case (Cons chunk rest)
  let ?ct = "estimateTokens (rr_content chunk)"
  show ?case
  proof (cases "totalTokens + ?ct > maxTokens")
    case True
    have "int (length (sliceTo (rr_content chunk) ((maxTokens - totalTokens) * 4)))
            \<le> (maxTokens - totalTokens) * 4"
      using Cons.prems by (intro sliceTo_len) simp
    then show ?thesis using True Cons.prems by (simp add: Let_def chunkDelimiter_def)
  next
    case False
    then have le: "totalTokens + ?ct \<le> maxTokens" by simp
    show ?thesis
      using Cons.IH[OF le, of "ctx @ chunkDelimiter @ rr_content chunk"] False
        estimateTokens_len[of "rr_content chunk"]
      by (simp add: Let_def chunkDelimiter_def)
  qed
qed

lemma trim_len: "length (trim s) \<le> length s"
  unfolding trim_def
  by (metis length_dropWhile_le length_rev le_trans)

definition docMeta :: RetrievalMeta where
  "docMeta = \<lparr> rm_kbId = ''kb1'', rm_docId = ''doc1'', rm_product = ''AI Factory'',
               rm_chunkIndex = 0, rm_language = ''en'' \<rparr>"

definition eightChars :: RetrievalResult where
  "eightChars = \<lparr> rr_content = ''aaaaaaaa'', rr_score = 9 / 10, rr_metadata = docMeta \<rparr>"

text \<open>
  Claim C5, as stated, fails: the budget is checked against the token estimates of
  the chunk contents only, so the delimiter written before every chunk and the
  ellipsis after a truncated one come on top. One chunk of 8 characters under a
  budget of 2 tokens gives 12 characters, estimated at 3 tokens.
\<close>

theorem assembleContext_over_budget:
  "assembleContext [eightChars] 2 = ''---\<newline>aaaaaaaa''
   \<and> estimateTokens (assembleContext [eightChars] 2) = 3
   \<and> \<not> estimateTokens (assembleContext [eightChars] 2) \<le> 2"
  by (simp add: assembleContext_def sortBy_def eightChars_def Let_def estimateTokens_def
        chunkDelimiter_def trim_def isJsSpace_def)

text \<open>
  Claim C5, amended. For every list of retrieval results and every budget
  \<open>maxTokens \<ge> 0\<close>, the string returned by \<open>assembleContext\<close> has at most
  \<open>4 * maxTokens\<close> characters of chunk text plus 5 characters of delimiter per chunk
  and 3 of ellipsis: its estimated token count is at most
  \<open>maxTokens + ceil((5 * n + 3) / 4)\<close> for \<open>n\<close> chunks.
\<close>

theorem assembleContext_budget:
  assumes "0 \<le> maxTokens"
  shows "int (length (assembleContext chunks maxTokens))
           \<le> 4 * maxTokens + 5 * int (length chunks) + 3
       \<and> estimateTokens (assembleContext chunks maxTokens)
           \<le> maxTokens + (5 * int (length chunks) + 6) div 4"
proof -
  have len: "int (length (assembleContext chunks maxTokens))
               \<le> 4 * maxTokens + 5 * int (length chunks) + 3"
  proof (cases "chunks = []")
    case True
    then show ?thesis using assms by (simp add: assembleContext_def)
  next
    case False
    have "int (length (assembleLoop (sortBy scoreDesc chunks) maxTokens [] 0))
            \<le> 4 * maxTokens + 5 * int (length chunks) + 3"
      using assembleLoop_len[OF assms, of "sortBy scoreDesc chunks" "[]"]
      by (simp add: sortBy_length)
    moreover have "int (length (assembleContext chunks maxTokens))
            \<le> int (length (assembleLoop (sortBy scoreDesc chunks) maxTokens [] 0))"
      using False trim_len by (simp add: assembleContext_def)
    ultimately show ?thesis by linarith
  qed
  then show ?thesis by (simp add: estimateTokens_def)
qed

theorem assembleContext_budget_witness:
  "(0::int) \<le> 2 \<and> length (assembleContext [eightChars] 2) = 12
   \<and> estimateTokens (assembleContext [eightChars] 2) \<le> 2 + (5 * 1 + 6) div 4"
proof -
  have "(0::int) \<le> 2" by simp
  from assembleContext_budget[OF this, of "[eightChars]"] show ?thesis
    by (simp add: assembleContext_def sortBy_def eightChars_def Let_def estimateTokens_def
        chunkDelimiter_def trim_def isJsSpace_def)
qed

definition vmeta :: "string \<Rightarrow> VectorMetadata" where
  "vmeta text = \<lparr> vm_tenantId = ''acme'', vm_kbId = ''kb1'', vm_docId = ''doc1'',
       vm_product = ''AI Factory'', vm_chunkIndex = 0, vm_content = text, vm_language = ''en'' \<rparr>"

definition unsortedMatches :: "RawMatch list" where
  "unsortedMatches =
     [\<lparr> raw_id = ''v1'', raw_score = Some (8 / 10), raw_metadata = Some (vmeta ''reset your password'') \<rparr>,
      \<lparr> raw_id = ''v2'', raw_score = Some (5 / 10), raw_metadata = Some (vmeta ''billing'') \<rparr>,
      \<lparr> raw_id = ''v3'', raw_score = Some (9 / 10), raw_metadata = Some (vmeta ''check the spam folder'') \<rparr>]"

definition unsortedQuery :: "string \<Rightarrow> nat QueryRequest \<Rightarrow> error + RawMatch list option" where
  "unsortedQuery tenantId request = Inr (Some unsortedMatches)"

definition unsortedEnv :: "nat RetrievalEnv" where
  "unsortedEnv = \<lparr> OPENAI_API_KEY = Some ''sk-test'', embeddings_create = echoCreate,
                   PINECONE_API_KEY = Some ''pc-test'', namespace_query = unsortedQuery \<rparr>"

definition noOptions :: RetrievalOptions where
  "noOptions = \<lparr> ro_topK = None, ro_minScore = None, ro_product = None, ro_kbId = None,
                 ro_language = None \<rparr>"

definition descending :: "real list \<Rightarrow> bool" where
  "descending scores = sorted_wrt (\<lambda>a b. a \<ge> b) scores"

definition passwordHit :: ScoredMatch where
  "passwordHit = \<lparr> sm_id = ''v1'', sm_score = 8 / 10,
                   sm_metadata = Some (vmeta ''reset your password'') \<rparr>"

definition spamHit :: ScoredMatch where
  "spamHit = \<lparr> sm_id = ''v3'', sm_score = 9 / 10,
               sm_metadata = Some (vmeta ''check the spam folder'') \<rparr>"

lemma unsortedEnv_result:
  "retrieveRelevantChunks unsortedEnv ''acme'' ''password reset'' noOptions
     = Inr [formatResult passwordHit, formatResult spamHit]"
  by (simp add: retrieveRelevantChunks_def generateEmbedding_def getOpenAIClient_def
        queryVectors_def unsortedEnv_def unsortedQuery_def unsortedMatches_def noOptions_def
        echoCreate_def truthyStr_def minScoreOf_def DEFAULT_MIN_SCORE_def buildFilter_def
        truthyOnly_def orNum_def nullishBool_def passwordHit_def spamHit_def Let_def)

text \<open>
  Claim C7, as stated, fails in its second half: \<open>retrieveRelevantChunks\<close> filters
  and formats the matches and never sorts them. An index that answers with the scores
  0.8, 0.5, 0.9 gets back 0.8, 0.9.
\<close>

theorem retrieve_not_sorted:
  "retrieveRelevantChunks unsortedEnv ''acme'' ''password reset'' noOptions
     = Inr [formatResult passwordHit, formatResult spamHit]
   \<and> rr_score (formatResult passwordHit) = 8 / 10
   \<and> rr_score (formatResult spamHit) = 9 / 10
   \<and> \<not> descending (map rr_score [formatResult passwordHit, formatResult spamHit])"
proof -
  have "rr_score (formatResult passwordHit) = 8 / 10" "rr_score (formatResult spamHit) = 9 / 10"
    by (simp_all add: formatResult_def passwordHit_def spamHit_def)
  then show ?thesis using unsortedEnv_result by (simp add: descending_def)
qed

lemma descending_filter: "descending (map f xs) \<Longrightarrow> descending (map f (filter P xs))"
  unfolding descending_def sorted_wrt_map by (rule sorted_wrt_filter)

text \<open>
  Claim C7, amended. For every tenant, query and options, the list returned by
  \<open>retrieveRelevantChunks\<close> holds only results with score \<open>\<ge> minScore\<close> (default
  0.7), and holds them in the order in which the vector index returned its matches:
  the scores of the list are the scores of the matches with those below \<open>minScore\<close>
  removed, so the list is in descending order whenever the index returned its matches
  in descending order.
\<close>

theorem retrieve_filtered_in_index_order:
  assumes "retrieveRelevantChunks env tenantId query options = Inr rs"
  shows "(\<forall>r \<in> set rs. rr_score r \<ge> minScoreOf options)
       \<and> (\<exists>v ms. generateEmbedding env query = Inr v
              \<and> queryVectors env tenantId v
                   \<lparr> qo_topK = Some (case ro_topK options of None \<Rightarrow> 5 | Some k \<Rightarrow> k),
                     qo_filter = buildFilter options, qo_includeMetadata = Some True \<rparr> = Inr ms
              \<and> map rr_score rs = filter (\<lambda>s. s \<ge> minScoreOf options) (map sm_score ms)
              \<and> (descending (map sm_score ms) \<longrightarrow> descending (map rr_score rs)))"
proof -
  obtain v ms where v: "generateEmbedding env query = Inr v"
    and ms: "queryVectors env tenantId v
               \<lparr> qo_topK = Some (case ro_topK options of None \<Rightarrow> 5 | Some k \<Rightarrow> k),
                 qo_filter = buildFilter options, qo_includeMetadata = Some True \<rparr> = Inr ms"
    and rs: "rs = map formatResult (filter (\<lambda>result. sm_score result \<ge> minScoreOf options) ms)"
    using assms by (auto simp: retrieveRelevantChunks_def Let_def split: sum.splits)
  have scores: "map rr_score rs
                  = map sm_score (filter (\<lambda>result. sm_score result \<ge> minScoreOf options) ms)"
    by (simp add: rs formatResult_def comp_def)
  have "\<forall>r \<in> set rs. rr_score r \<ge> minScoreOf options"
    by (auto simp: rs formatResult_def)
  moreover have "map rr_score rs = filter (\<lambda>s. s \<ge> minScoreOf options) (map sm_score ms)"
    by (simp add: scores filter_map comp_def)
  moreover have "descending (map sm_score ms) \<longrightarrow> descending (map rr_score rs)"
    by (simp add: scores descending_filter)
  ultimately show ?thesis using v ms by blast
qed

theorem retrieve_filtered_in_index_order_witness:
  "retrieveRelevantChunks unsortedEnv ''acme'' ''password reset'' noOptions
     = Inr [formatResult passwordHit, formatResult spamHit]
   \<and> minScoreOf noOptions \<le> rr_score (formatResult passwordHit)
   \<and> minScoreOf noOptions \<le> rr_score (formatResult spamHit)"
  using retrieve_filtered_in_index_order [OF unsortedEnv_result] unsortedEnv_result
  by simp

section \<open>Properties of the guardrail engine\<close>

lemma matchLit_length:
  "matchLit ci l (p, s) = Some (p', rest) \<Longrightarrow> length rest + length l = length s"
proof (induction l arbitrary: p s)
  case Nil
  then show ?case by simp
next
  case (Cons a l)
  then show ?case by (cases s) (auto split: if_splits)
qed

lemma run_nth:
  "k < length (run ci cs mx (p, s)) \<Longrightarrow> snd (run ci cs mx (p, s) ! k) = drop k s \<and> k \<le> length s"
proof (induction s arbitrary: k p mx)
  case Nil
  then show ?case by simp
next
  case (Cons n s)
  show ?case
  proof (cases k)
    case 0
    then show ?thesis by simp
  next
    case (Suc j)
    then show ?thesis using Cons.prems Cons.IH[of j] by (auto split: if_splits)
  qed
qed

lemma run_drop_length:
  assumes "(p', rest) \<in> set (drop mn (run ci cs mx (p, s)))"
  shows "length rest + mn \<le> length s"
proof -
  obtain j where j: "j < length (drop mn (run ci cs mx (p, s)))"
     "drop mn (run ci cs mx (p, s)) ! j = (p', rest)"
    using assms by (auto simp: in_set_conv_nth)
  then have k: "mn + j < length (run ci cs mx (p, s))" by simp
  have "run ci cs mx (p, s) ! (mn + j) = (p', rest)" using j k by simp
  with run_nth[OF k] have "rest = drop (mn + j) s" "mn + j \<le> length s" by auto
  then show ?thesis by simp
qed

lemma ends_consume:
  "(p', rest) \<in> set (ends ci r (p, s)) \<Longrightarrow> length rest + minLen r \<le> length s"
proof (induction r arbitrary: p s p' rest)
  case Eps
  then show ?case by simp
next
  case (Chars cs)
  then show ?case by (cases s) (auto split: if_splits)
next
  case (Lit l)
  then have "matchLit ci l (p, s) = Some (p', rest)"
    by (cases "matchLit ci l (p, s)") auto
  from matchLit_length[OF this] show ?case by simp
next
  case (Seq a b)
  from Seq.prems obtain q mid where mid: "(q, mid) \<in> set (ends ci a (p, s))"
    and fin: "(p', rest) \<in> set (ends ci b (q, mid))" by auto
  from Seq.IH(1)[OF mid] Seq.IH(2)[OF fin] show ?case by simp
next
  case (Alt a b)
  then show ?case by fastforce
next
  case (Rep mn mx cs)
  then show ?case using run_drop_length by simp
next
  case WordBoundary
  then show ?case by (auto split: if_splits)
next
  case LineStart
  then show ?case by (auto split: if_splits)
next
  case LineEnd
  then show ?case by (auto split: if_splits)
qed

lemma execAll_total:
  assumes "0 < minLen r"
  shows "\<exists>ms. execAll ci r i (p, s) = Some ms"
proof (induction s arbitrary: i p rule: length_induct)
  case (1 s)
  show ?case
  proof (cases "matchAt ci r (p, s)")
    case None
    then show ?thesis
    proof (cases s)
      case Nil
      with None show ?thesis by simp
    next
      case (Cons n s')
      with None "1.IH"[rule_format, of s' "i + 1" "Some n"] show ?thesis by simp
    qed
  next
    case (Some e)
    obtain p' rest where e: "e = (p', rest)" by (cases e)
    have "(p', rest) \<in> set (ends ci r (p, s))"
      using Some e by (auto simp: matchAt_def split: list.splits)
    from ends_consume[OF this] assms have lt: "length rest < length s" by simp
    from "1.IH"[rule_format, OF lt, of "i + (length s - length rest)" p']
    show ?thesis using Some e lt by auto
  qed
qed

lemma redactLoop_total:
  "list_all (\<lambda>(ci, r, name). 0 < minLen r) ps \<Longrightarrow> \<exists>out. redactLoop ps text acc = Some out"
proof (induction ps arbitrary: acc)
  case Nil
  then show ?case by simp
next
  case (Cons a ps)
  obtain ci r name where a: "a = (ci, r, name)" by (cases a)
  with Cons.prems have "0 < minLen r" by simp
  from execAll_total[OF this] obtain ms where "execAll ci r 0 (None, codes text) = Some ms" by blast
  then show ?case using Cons a by simp
qed

lemma seqs_minLen: "minLen (seqs rs) = sum_list (map minLen rs)"
  by (induction rs) (auto simp: seqs_def)

lemma patterns_consume: "list_all (\<lambda>(ci, r, name). 0 < minLen r) SENSITIVE_PATTERNS"
  by code_simp

lemma redactSecrets_total: "\<exists>r. redactSecrets t = Some r"
  using redactLoop_total[OF patterns_consume, of t "(t, [])"]
  by (auto simp: redactSecrets_def)

lemma foldl_redactMatch:
  "foldl (redactMatch name text) (res, reds) ms = (res', reds') \<Longrightarrow>
     length reds' = length reds + length ms \<and> (ms = [] \<longrightarrow> res' = res)"
proof (induction ms arbitrary: res reds)
  case Nil
  then show ?case by simp
next
  case (Cons m ms)
  obtain res1 reds1 where s: "redactMatch name text (res, reds) m = (res1, reds1)"
    by (cases "redactMatch name text (res, reds) m")
  then have "length reds1 = Suc (length reds)" by (auto simp: redactMatch_def Let_def)
  with Cons.IH[of res1 reds1] Cons.prems s show ?case by simp
qed

lemma redactLoop_unchanged:
  "redactLoop ps text (res, reds) = Some (res', reds') \<Longrightarrow>
     length reds \<le> length reds' \<and> (length reds' = length reds \<longrightarrow> res' = res)"
proof (induction ps arbitrary: res reds)
  case Nil
  then show ?case by simp
next
  case (Cons a ps)
  obtain ci r name where a: "a = (ci, r, name)" by (cases a)
  obtain ms where ms: "execAll ci r 0 (None, codes text) = Some ms"
    using Cons.prems a by (cases "execAll ci r 0 (None, codes text)") simp_all
  obtain res1 reds1 where f: "foldl (redactMatch name text) (res, reds) ms = (res1, reds1)"
    by (cases "foldl (redactMatch name text) (res, reds) ms")
  have rest: "redactLoop ps text (res1, reds1) = Some (res', reds')"
    using Cons.prems a ms f by simp
  from foldl_redactMatch[OF f]
  have l1: "length reds1 = length reds + length ms" "ms = [] \<longrightarrow> res1 = res" by simp_all
  from Cons.IH[OF rest]
  have l2: "length reds1 \<le> length reds'" "length reds' = length reds1 \<longrightarrow> res' = res1"
    by simp_all
  have "length reds \<le> length reds'" using l1(1) l2(1) by linarith
  moreover have "res' = res" if "length reds' = length reds"
  proof -
    from that l1(1) l2(1) have "length ms = 0" "length reds' = length reds1" by linarith+
    with l1(2) l2(2) show ?thesis by simp
  qed
  ultimately show ?case by blast
qed

lemma redactSecrets_clean:
  assumes "redactSecrets text = Some r" and "\<not> rd_hasSecrets r"
  shows "rd_text r = text"
proof -
  obtain res reds where l: "redactLoop SENSITIVE_PATTERNS text (text, []) = Some (res, reds)"
    and r: "r = \<lparr> rd_text = res, rd_redactions = reds, rd_hasSecrets = (reds \<noteq> []) \<rparr>"
    using assms(1) by (auto simp: redactSecrets_def)
  from assms(2) r have "reds = []" by simp
  with redactLoop_unchanged[OF l] r show ?thesis by simp
qed




















definition highCase :: EscalationContext where
  "highCase = \<lparr> cx_failedAttempts = None, cx_severity = Some ''high'',
                cx_customerRequested = None \<rparr>"

text \<open>
  Claim C1 does not hold of the code. The branch of the keyword loop that sets
  \<open>high\<close> has no guard, and neither has the assignment of the case severity, so both
  lower a \<open>critical\<close> reached earlier in the same call (the branch that sets
  \<open>medium\<close> and the two \<open>if (severity === 'low')\<close> are guarded). After the first
  keyword the severity of the message below is \<open>critical\<close>; the call returns
  \<open>high\<close>. With the case severity \<open>high\<close>, a breach report ends \<open>high\<close> too.
\<close>

theorem checkEscalationTriggers_downgrades:
  "snd (keywordPass ''I will file a lawsuit over your compliance failures''
          (take 1 ESCALATION_KEYWORDS)) = critical
   \<and> ec_severity (checkEscalationTriggers
         ''I will file a lawsuit over your compliance failures'' None) = high
   \<and> snd (keywordPass ''We had a data breach'' ESCALATION_KEYWORDS) = critical
   \<and> ec_severity (checkEscalationTriggers ''We had a data breach'' (Some highCase)) = high"
  by code_simp



section \<open>Properties of the tier-1 agent\<close>

definition escalates :: "string list \<times> Severity \<Rightarrow> bool" where
  "escalates acc = (snd acc = low \<or> fst acc \<noteq> [])"

lemma keywordStep_escalates: "escalates acc \<Longrightarrow> escalates (keywordStep m acc k)"
  by (cases acc) (auto simp: escalates_def keywordStep_def)

lemma keywordPass_escalates: "escalates (keywordPass message keywords)"
proof -
  have "escalates acc \<Longrightarrow> escalates (foldl (keywordStep m) acc ks)" for acc m ks
    by (induction ks arbitrary: acc) (auto simp: keywordStep_escalates)
  then show ?thesis by (simp add: keywordPass_def escalates_def)
qed

lemma contextPass_escalates: "escalates acc \<Longrightarrow> escalates (contextPass ctx acc)"
  by (cases acc) (auto simp: escalates_def contextPass_def Let_def)

lemma checkEscalationTriggers_reasons:
  "ec_severity (checkEscalationTriggers message ctx) \<noteq> low
     \<Longrightarrow> ec_shouldEscalate (checkEscalationTriggers message ctx)"
proof -
  define final where "final = (case ctx of None \<Rightarrow> keywordPass message ESCALATION_KEYWORDS
                               | Some c \<Rightarrow> contextPass c (keywordPass message ESCALATION_KEYWORDS))"
  have "escalates final"
    unfolding final_def using keywordPass_escalates contextPass_escalates
    by (cases ctx) auto
  moreover have "checkEscalationTriggers message ctx =
       \<lparr> ec_shouldEscalate = (fst final \<noteq> []), ec_reasons = fst final, ec_severity = snd final \<rparr>"
    by (cases final) (simp add: checkEscalationTriggers_def final_def Let_def)
  ultimately show "ec_severity (checkEscalationTriggers message ctx) \<noteq> low
     \<Longrightarrow> ec_shouldEscalate (checkEscalationTriggers message ctx)"
    by (auto simp: escalates_def)
qed

lemma contextPass_critical:
  "cx_severity ctx = Some ''critical'' \<Longrightarrow> snd (contextPass ctx acc) = critical"
  by (cases acc) (auto simp: contextPass_def Let_def)

lemma triggerCheck_critical_case:
  assumes "ac_severity context = critical"
  shows "ec_severity (triggerCheck context m) = critical"
proof -
  let ?ctx = "\<lparr> cx_failedAttempts = ac_failedAttempts context,
               cx_severity = Some (severityName (ac_severity context)),
               cx_customerRequested =
                 Some (includesStr (toLowerCase m) ''speak to human''
                       \<or> includesStr (toLowerCase m) ''talk to person'') \<rparr>"
  have "cx_severity ?ctx = Some ''critical''" using assms by simp
  from contextPass_critical[OF this, of "keywordPass m ESCALATION_KEYWORDS"]
  show ?thesis
    by (cases "contextPass ?ctx (keywordPass m ESCALATION_KEYWORDS)")
       (simp add: triggerCheck_def checkEscalationTriggers_def Let_def)
qed

lemma validateAIResponse_total: "\<exists>v. validateAIResponse response = Some v"
  using redactSecrets_total[of response] by (auto simp: validateAIResponse_def)

definition plainAnswer :: ChatCompletion where
  "plainAnswer =
     \<lparr> cc_choices = [\<lparr> cm_content = Some ''I am sorry to hear that. What went wrong?'',
                         cm_tool_calls = None \<rparr>],
       cc_model = ''gpt-4'', cc_total_tokens = Some 120 \<rparr>"

definition plainClient :: "string option \<Rightarrow> error + (ChatRequest \<Rightarrow> error + ChatCompletion)" where
  \<comment> \<open>A double of the SDK: no client without a key, and a model that gives one answer.\<close>
  "plainClient key =
     (case key of
        None \<Rightarrow> Inl (Error ''The OPENAI_API_KEY environment variable is missing or empty'')
      | Some k \<Rightarrow> Inr (\<lambda>request. Inr plainAnswer))"

definition wordPlaceholder :: "string \<Rightarrow> string \<Rightarrow> string \<Rightarrow> error + string" where
  \<comment> \<open>\<open>regexp_replace\<close> on the sources of the examples: the placeholder of the name
      \<open>(\<close> is no regular expression (an unterminated group); the placeholder of a
      name of letters is a literal, replaced everywhere by a value without \<open>$\<close>.\<close>
  "wordPlaceholder source subject replacement =
     (if source = placeholderSource ''(''
      then Inl (Error ''SyntaxError: Invalid regular expression: Unterminated group'')
      else Inr (replaceAll (''{{'' @ take (length source - 8) (drop 4 source) @ ''}}'')
                  replacement subject))"

definition deskEnv :: "nat AgentEnv" where
  "deskEnv = \<lparr> OPENAI_API_KEY = Some ''sk-test'', embeddings_create = echoCreate,
               PINECONE_API_KEY = Some ''pc-test'', namespace_query = unsortedQuery,
               new_OpenAI = plainClient, playbookRegistry = [loginPlaybook],
               regexp_replace = wordPlaceholder \<rparr>"

definition caseOf :: "Severity \<Rightarrow> L1AgentContext" where
  "caseOf s = \<lparr> ac_tenantId = ''acme'', ac_caseId = ''case-1'', ac_product = ''AI Factory'',
                ac_category = ''billing'', ac_language = ''en'', ac_severity = s,
                ac_customerName = None, ac_conversationHistory = [],
                ac_playbookState = None, ac_failedAttempts = None \<rparr>"

definition withVariable :: "string \<Rightarrow> string \<Rightarrow> L1AgentContext" where
  \<comment> \<open>A case of severity \<open>low\<close> that is at the first step of the login playbook, with
      one variable.\<close>
  "withVariable key v =
     (caseOf low)\<lparr> ac_playbookState :=
        Some ((createExecutionState 0 loginPlaybook)\<lparr> st_variables := [(key, v)] \<rparr>) \<rparr>"

definition callsAndLevel ::
  "(Effect list \<times> (error + L1AgentResponse)) option \<Rightarrow> (nat \<times> bool \<times> EscalationLevel option) option" where
  "callsAndLevel result =
     (case result of
        Some (effects, Inr response) \<Rightarrow>
          Some (length effects, ar_shouldEscalate response, ar_escalationLevel response)
      | _ \<Rightarrow> None)"

definition isRetrieval :: "Effect \<Rightarrow> bool" where
  "isRetrieval effect = (case effect of RetrievalCall t q opts \<Rightarrow> True | _ \<Rightarrow> False)"

lemma processL1Request_bad_variable:
  "map_option (\<lambda>(effects, outcome). (map isRetrieval effects, isl outcome))
     (processL1Request deskEnv (withVariable ''('' ''x'') ''The app keeps closing'')
     = Some ([True], True)
   \<and> map_option (\<lambda>(effects, outcome). (map isRetrieval effects, isl outcome))
       (processL1Request deskEnv (withVariable ''name'' ''Ada'') ''The app keeps closing'')
     = Some ([True, False], False)"
  by code_simp

text \<open>
  Claim C2, as stated, fails: the turn returns early only when the trigger check
  grades it \<open>critical\<close>, and the keyword \<open>sue\<close> is none of the keywords that set
  \<open>critical\<close> or \<open>high\<close>. On a case of severity \<open>low\<close> the message is graded
  \<open>medium\<close>; the retrieval engine and the model are both called, and the response
  carries \<open>shouldEscalate = true\<close> with no escalation level.
\<close>

theorem processL1Request_sue_reaches_model:
  "ec_severity (triggerCheck (caseOf low) ''I'm going to sue you'') = medium
   \<and> callsAndLevel (processL1Request deskEnv (caseOf low) ''I'm going to sue you'')
       = Some (2, True, None)"
  by code_simp

text \<open>
  Claim C2, amended. For every user message (one containing "I'm going to sue you"
  among them), \<open>processL1Request\<close> returns at once with \<open>shouldEscalate = true\<close> and
  \<open>escalationLevel = L3\<close>, having called neither the retrieval engine nor the model,
  exactly when the trigger check on the redacted message grades the turn
  \<open>critical\<close>, as it does whenever the severity of the case is \<open>critical\<close>. On every
  other turn the retrieval engine is called first; the model is called after it at
  most once (not at all when the prompt cannot be built or there is no client).
\<close>

theorem processL1Request_short_circuit:
  "\<exists>r. redactSecrets userMessage = Some r
      \<and> (if ec_severity (triggerCheck context (rd_text r)) = critical
          then processL1Request env context userMessage
                 = Some ([], Inr (handoffResponse (triggerCheck context (rd_text r))))
             \<and> ar_shouldEscalate (handoffResponse (triggerCheck context (rd_text r)))
             \<and> ar_escalationLevel (handoffResponse (triggerCheck context (rd_text r))) = Some L3
          else \<exists>asked outcome.
                 processL1Request env context userMessage
                   = Some (RetrievalCall (ac_tenantId context) (rd_text r) (ragOptions context)
                             # asked, outcome)
                 \<and> (asked = [] \<or> (\<exists>request. asked = [ChatCompletionCall request])))
      \<and> (ac_severity context = critical
            \<longrightarrow> ec_severity (triggerCheck context (rd_text r)) = critical)"
proof -
  obtain r where r: "redactSecrets userMessage = Some r" using redactSecrets_total by blast
  let ?check = "triggerCheck context (rd_text r)"
  let ?retrieval = "RetrievalCall (ac_tenantId context) (rd_text r) (ragOptions context)"
  have crit: "processL1Request env context userMessage = Some ([], Inr (handoffResponse ?check))"
    if "ec_severity ?check = critical"
  proof -
    from that have "ec_shouldEscalate ?check"
      using checkEscalationTriggers_reasons[of "rd_text r"] by (simp add: triggerCheck_def)
    with that r show ?thesis by (simp add: processL1Request_def Let_def)
  qed
  have fin: "\<exists>out. finishTurn env context chk chunks playbook completion = Some out"
    for chk chunks playbook completion
  proof (cases "cc_choices completion")
    case Nil
    then show ?thesis by (simp add: finishTurn_def)
  next
    case (Cons responseMessage rest)
    show ?thesis
    proof (cases "interpretToolCall responseMessage
                    (ec_shouldEscalate chk, Some (joinWith ''; '' (ec_reasons chk)))")
      case (Inl e)
      with Cons show ?thesis by (simp add: finishTurn_def)
    next
      case (Inr res)
      obtain v where "validateAIResponse (orStr (cm_content responseMessage) []) = Some v"
        using validateAIResponse_total by blast
      with Cons Inr show ?thesis by (cases res) (simp add: finishTurn_def Let_def)
    qed
  qed
  have other: "\<exists>asked outcome. processL1Request env context userMessage
                   = Some (?retrieval # asked, outcome)
                 \<and> (asked = [] \<or> (\<exists>request. asked = [ChatCompletionCall request]))"
    if nc: "ec_severity ?check \<noteq> critical"
  proof -
    let ?chunks = "retrieveContext env context (rd_text r)"
    let ?playbook = "selectPlaybook env context (rd_text r)"
    let ?rag = "(if ?chunks \<noteq> [] then assembleContext ?chunks DEFAULT_CONTEXT_TOKENS else [])"
    have step: "processL1Request env context userMessage =
       (case buildSystemPrompt env context ?rag ?playbook of
          Inl e \<Rightarrow> Some ([?retrieval], Inl e)
        | Inr systemPrompt \<Rightarrow>
            (case askModel env (chatRequest context systemPrompt (rd_text r)) of
               (asked, Inl e) \<Rightarrow> Some ([?retrieval] @ asked, Inl e)
             | (asked, Inr completion) \<Rightarrow>
                 map_option (\<lambda>outcome. ([?retrieval] @ asked, outcome))
                   (finishTurn env context ?check ?chunks ?playbook completion)))"
      using r nc by (simp add: processL1Request_def Let_def)
    show ?thesis
    proof (cases "buildSystemPrompt env context ?rag ?playbook")
      case (Inl e)
      with step show ?thesis by simp
    next
      case (Inr systemPrompt)
      let ?request = "chatRequest context systemPrompt (rd_text r)"
      obtain asked answer where a: "askModel env ?request = (asked, answer)"
        by (cases "askModel env ?request")
      then have asked: "asked = [] \<or> asked = [ChatCompletionCall ?request]"
        by (auto simp: askModel_def split: sum.splits)
      show ?thesis
      proof (cases answer)
        case (Inl e)
        with step Inr a asked show ?thesis by auto
      next
        case answered: (Inr completion)
        obtain out where "finishTurn env context ?check ?chunks ?playbook completion = Some out"
          using fin by blast
        with step Inr a asked answered show ?thesis by auto
      qed
    qed
  qed
  show ?thesis
    using r crit other triggerCheck_critical_case
    by (auto simp: handoffResponse_def)
qed

theorem processL1Request_short_circuit_witness:
  "ac_severity (caseOf critical) = critical
   \<and> callsAndLevel (processL1Request deskEnv (caseOf critical) ''I'm going to sue you'')
       = Some (0, True, Some L3)"
proof -
  have sev: "ac_severity (caseOf critical) = critical" by (simp add: caseOf_def)
  show ?thesis
    using processL1Request_short_circuit [of "''I'm going to sue you''" "caseOf critical" deskEnv]
      sev
    by (auto simp: callsAndLevel_def split: if_splits)
qed
section \<open>The token estimates of the chunks\<close>

text \<open>
  \<open>chunkSection\<close> compares the estimates of the running chunk and of the next
  piece with \<open>maxTokens\<close> before it joins them. The separator between them, the
  overlap text that seeds a new chunk and the short tail merged into the last chunk
  are not part of that comparison.
\<close>

lemma estimateTokens_mono: "length a \<le> length b \<Longrightarrow> estimateTokens a \<le> estimateTokens b"
  by (simp add: estimateTokens_def zdiv_mono1)

lemma estimateTokens_nonneg: "0 \<le> estimateTokens a"
  by (simp add: estimateTokens_def)

lemma estimateTokens_joined:
  "length sep \<le> 4 \<Longrightarrow>
   estimateTokens (a @ sep @ b) \<le> estimateTokens a + estimateTokens b + 1"
  by (simp add: estimateTokens_def)

lemma estimateTokens_seeded:
  "int (length ov) \<le> 4 * n \<Longrightarrow> length sep \<le> 4 \<Longrightarrow>
   estimateTokens (ov @ sep @ b) \<le> n + estimateTokens b + 1"
  by (simp add: estimateTokens_def)

lemma sliceFrom_tail:
  "0 < n \<Longrightarrow> int (length (sliceFrom t (- n))) \<le> n"
  by (simp add: sliceFrom_def)

lemma getOverlapText_length:
  assumes "1 \<le> overlapTokens"
  shows "int (length (getOverlapText t overlapTokens)) \<le> 4 * overlapTokens"
proof (cases "int (length t) \<le> overlapTokens * 4")
  case True
  then show ?thesis by (simp add: getOverlapText_def)
next
  case False
  define ss where "ss = splitIntoSentences (sliceFrom t (- (overlapTokens * 4 * 2)))"
  define pick where "pick = (\<lambda>ov i. let candidate = joinWith '' '' (drop i ss)
                                  in if int (length candidate) \<le> overlapTokens * 4
                                     then candidate else ov)"
  define ov where "ov = foldl pick [] (rev [0..<length ss])"
  have fold: "int (length acc) \<le> overlapTokens * 4
                \<Longrightarrow> int (length (foldl pick acc ks)) \<le> overlapTokens * 4" for acc ks
    by (induction ks arbitrary: acc) (auto simp: pick_def Let_def)
  have ovlen: "int (length ov) \<le> overlapTokens * 4"
    unfolding ov_def using assms by (intro fold) simp
  have tail: "int (length (sliceFrom t (- (overlapTokens * 4)))) \<le> overlapTokens * 4"
    using assms by (intro sliceFrom_tail) simp
  have "getOverlapText t overlapTokens =
          (if length ss > 1 then (if ov \<noteq> [] then ov else sliceFrom t (- (overlapTokens * 4)))
           else sliceFrom t (- (overlapTokens * 4)))"
    using False unfolding getOverlapText_def Let_def ss_def ov_def pick_def by simp
  then show ?thesis using ovlen tail by simp
qed


lemma dropWhile_keeps: "c \<in> set xs \<Longrightarrow> \<not> P c \<Longrightarrow> c \<in> set (dropWhile P xs)"
  by (induction xs) auto

lemma trim_keeps: "c \<in> set s \<Longrightarrow> \<not> isJsSpace c \<Longrightarrow> c \<in> set (trim s)"
  unfolding trim_def by (simp add: dropWhile_keeps)

lemma trim_nonempty_iff: "trim s \<noteq> [] \<longleftrightarrow> (\<exists>c \<in> set s. \<not> isJsSpace c)"
proof
  assume "trim s \<noteq> []"
  then have "dropWhile isJsSpace (rev (dropWhile isJsSpace s)) \<noteq> []" by (simp add: trim_def)
  then obtain c where "c \<in> set (rev (dropWhile isJsSpace s))" "\<not> isJsSpace c"
    by (auto simp: dropWhile_eq_Nil_conv)
  then show "\<exists>c \<in> set s. \<not> isJsSpace c" by (auto dest: set_dropWhileD)
next
  assume "\<exists>c \<in> set s. \<not> isJsSpace c"
  then obtain c where "c \<in> set s" "\<not> isJsSpace c" by blast
  then have "c \<in> set (trim s)" by (rule trim_keeps)
  then show "trim s \<noteq> []" by auto
qed

lemma trim_trim_nonempty: "trim s \<noteq> [] \<Longrightarrow> trim (trim s) \<noteq> []"
  by (metis trim_nonempty_iff trim_keeps)

lemma trim_append_nonempty: "trim b \<noteq> [] \<Longrightarrow> trim (a @ sep @ b) \<noteq> []"
  by (auto simp: trim_nonempty_iff)

lemma includesStr_sublist: "includesStr s t \<longleftrightarrow> sublist t s"
  by (induction s) (auto simp: sublist_Cons_right)

lemma sublist_in_left: "sublist e a \<Longrightarrow> sublist e (a @ b)"
  by (auto simp: sublist_def) (metis append.assoc)

lemma sublist_in_right: "sublist e b \<Longrightarrow> sublist e (a @ b)"
  by (auto simp: sublist_def) (metis append.assoc)

lemma dropWhile_passes:
  assumes "e \<noteq> []" and "\<not> P (hd e)"
  shows "\<exists>ps'. dropWhile P (ps @ e @ ss) = ps' @ e @ ss"
proof (cases "\<forall>x \<in> set ps. P x")
  case True
  have "dropWhile P (e @ ss) = e @ ss" using assms by (cases e) auto
  with True have "dropWhile P (ps @ e @ ss) = [] @ e @ ss" by (simp add: dropWhile_append)
  then show ?thesis by blast
next
  case False
  then have "dropWhile P (ps @ e @ ss) = dropWhile P ps @ e @ ss"
    by (auto simp: dropWhile_append)
  then show ?thesis by blast
qed

lemma sublist_trim:
  assumes "solid e" and "sublist e s"
  shows "sublist e (trim s)"
proof -
  from assms(2) obtain ps ss where s: "s = ps @ e @ ss" by (auto simp: sublist_def)
  from assms(1) have e: "e \<noteq> []" "\<not> isJsSpace (hd e)" "\<not> isJsSpace (last e)"
    by (auto simp: solid_def)
  obtain ps' where front: "dropWhile isJsSpace s = ps' @ e @ ss"
    using dropWhile_passes[where e = e and P = isJsSpace and ps = ps and ss = ss] e s by blast
  have "rev e \<noteq> []" "\<not> isJsSpace (hd (rev e))" using e by (simp_all add: hd_rev)
  with dropWhile_passes[where e = "rev e" and P = isJsSpace and ps = "rev ss" and ss = "rev ps'"]
  obtain ss' where "dropWhile isJsSpace (rev ss @ rev e @ rev ps') = ss' @ rev e @ rev ps'"
    by blast
  then have "trim s = ps' @ e @ rev ss'" by (simp add: trim_def front)
  then show ?thesis by (auto simp: sublist_def)
qed

lemma trim_solid: "trim s \<noteq> [] \<Longrightarrow> solid (trim s)"
proof -
  assume ne: "trim s \<noteq> []"
  define y where "y = dropWhile isJsSpace s"
  define z where "z = dropWhile isJsSpace (rev y)"
  have t: "trim s = rev z" by (simp add: trim_def y_def z_def)
  with ne have z: "z \<noteq> []" by simp
  then have y: "y \<noteq> []" by (auto simp: z_def)
  have "\<not> isJsSpace (hd z)" using z unfolding z_def by (rule hd_dropWhile)
  then have l: "\<not> isJsSpace (last (trim s))" using z by (simp add: t last_rev)
  have "last z = last (rev y)"
    using z unfolding z_def by (metis append_Nil2 last_appendR takeWhile_dropWhile_id)
  also have "\<dots> = hd y" using y by (simp add: last_rev)
  finally have "hd (trim s) = hd y" using z by (simp add: t hd_rev)
  moreover have "\<not> isJsSpace (hd y)" using y unfolding y_def by (rule hd_dropWhile)
  ultimately show ?thesis using ne l by (simp add: solid_def)
qed

lemma solid_nonblank: "solid s \<Longrightarrow> trim s \<noteq> []"
  unfolding solid_def trim_nonempty_iff by (metis hd_in_set)

lemma sentencePart_solid:
  assumes "\<forall>s \<in> set (fst acc). solid s"
  shows "\<forall>s \<in> set (fst (sentencePart acc part)). solid s"
proof -
  obtain sentences current lastIndex where acc: "acc = (sentences, current, lastIndex)"
    by (cases acc)
  obtain hit li where t: "testAt sentenceEndings part lastIndex = (hit, li)"
    by (cases "testAt sentenceEndings part lastIndex")
  show ?thesis
    using assms acc t by (cases hit) (auto simp: sentencePart_def trim_solid)
qed

lemma splitIntoSentences_solid: "\<forall>s \<in> set (splitIntoSentences t). solid s"
proof -
  have inv: "\<forall>s \<in> set (fst acc). solid s
               \<Longrightarrow> \<forall>s \<in> set (fst (foldl sentencePart acc parts)). solid s" for acc parts
  proof (induction parts arbitrary: acc)
    case Nil
    then show ?case by simp
  next
    case (Cons part parts)
    from Cons.IH[OF sentencePart_solid[OF Cons.prems]] show ?case by simp
  qed
  define parts where "parts = splitRe False sentenceEndings True (None, codes t) t []"
  obtain sentences current lastIndex
    where f: "foldl sentencePart ([], [], 0) parts = (sentences, current, lastIndex)"
    by (cases "foldl sentencePart ([], [], 0) parts")
  have "\<forall>s \<in> set sentences. solid s"
    using inv[of "([], [], 0)" parts] f by simp
  then show ?thesis
    using f by (auto simp: splitIntoSentences_def parts_def trim_solid)
qed

lemma pushChunk_bounded:
  assumes "\<forall>e \<in> E. solid e" and "bounded b E st" and "trim (cs_currentChunk st) \<noteq> []"
  shows "bounded b E (pushChunk st (estimateTokens (cs_currentChunk st)))"
proof -
  have "estimateTokens (trim (cs_currentChunk st)) \<le> estimateTokens (cs_currentChunk st)"
    by (intro estimateTokens_mono trim_len)
  moreover have "\<exists>e \<in> E. sublist e (trim (cs_currentChunk st))"
    if "\<exists>e \<in> E. sublist e (cs_currentChunk st)"
    using that assms(1) by (auto intro: sublist_trim)
  moreover have "cs_currentChunk st \<noteq> []" using assms(3) by (auto simp: trim_def)
  ultimately show ?thesis
    using assms(2) unfolding bounded_def pushChunk_def by auto
qed

lemma sentenceStep_bounded:
  assumes "1 \<le> overlapTokens"
      and "estimateTokens sentence \<le> maxTokens \<or> sentence \<in> E"
      and "trim sentence \<noteq> []"
      and "\<forall>e \<in> E. solid e"
      and "bounded (maxTokens + overlapTokens + 1) E st"
      and "cs_currentChunk st = [] \<or> trim (cs_currentChunk st) \<noteq> []"
  shows "bounded (maxTokens + overlapTokens + 1) E (sentenceStep maxTokens overlapTokens st sentence)
       \<and> trim (cs_currentChunk (sentenceStep maxTokens overlapTokens st sentence)) \<noteq> []"
proof (cases "sentenceOverflows maxTokens (cs_currentChunk st) sentence")
  case True
  let ?ov = "getOverlapText (cs_currentChunk st) overlapTokens"
  have "estimateTokens (?ov @ '' '' @ sentence) \<le> overlapTokens + estimateTokens sentence + 1"
    using getOverlapText_length[OF assms(1)] by (intro estimateTokens_seeded) simp_all
  moreover have "sublist sentence (?ov @ '' '' @ sentence)"
    by (intro sublist_in_right) simp
  ultimately have cur: "estimateTokens (?ov @ '' '' @ sentence) \<le> maxTokens + overlapTokens + 1
                  \<or> (\<exists>e \<in> E. sublist e (?ov @ '' '' @ sentence))"
    using assms(2) by (cases "sentence \<in> E") (blast, linarith)
  have nb: "trim (?ov @ '' '' @ sentence) \<noteq> []"
    using assms(3) by (rule trim_append_nonempty)
  have "trim (cs_currentChunk st) \<noteq> []" using True by (simp add: sentenceOverflows_def)
  with assms(4,5) have pushed: "bounded (maxTokens + overlapTokens + 1) E
                  (pushChunk st (estimateTokens (cs_currentChunk st)))"
    by (rule pushChunk_bounded)
  have chunks: "cs_chunks (sentenceStep maxTokens overlapTokens st sentence)
                  = cs_chunks (pushChunk st (estimateTokens (cs_currentChunk st)))"
    and current: "cs_currentChunk (sentenceStep maxTokens overlapTokens st sentence)
                  = ?ov @ '' '' @ sentence"
    using True by (simp_all add: sentenceStep_def Let_def)
  show ?thesis
    using cur nb pushed unfolding bounded_def chunks current by simp
next
  case False
  let ?sep = "(if cs_currentChunk st \<noteq> [] then '' '' else [])"
  have cur: "estimateTokens (cs_currentChunk st @ ?sep @ sentence) \<le> maxTokens + overlapTokens + 1
             \<or> (\<exists>e \<in> E. sublist e (cs_currentChunk st @ ?sep @ sentence))"
  proof (cases "sentence \<in> E")
    case True
    have "sublist sentence (cs_currentChunk st @ ?sep @ sentence)"
      by (intro sublist_in_right) simp
    with True show ?thesis by blast
  next
    case notin: False
    with assms(2) have small: "estimateTokens sentence \<le> maxTokens" by simp
    have "estimateTokens (cs_currentChunk st @ ?sep @ sentence) \<le> maxTokens + overlapTokens + 1"
    proof (cases "cs_currentChunk st = []")
      case True
      then show ?thesis using small assms(1) by simp
    next
      case nonempty: False
      with assms(6) have "trim (cs_currentChunk st) \<noteq> []" by simp
      with False
      have fit: "estimateTokens (cs_currentChunk st) + estimateTokens sentence \<le> maxTokens"
        by (simp add: sentenceOverflows_def)
      have "estimateTokens (cs_currentChunk st @ ?sep @ sentence)
              \<le> estimateTokens (cs_currentChunk st) + estimateTokens sentence + 1"
        by (intro estimateTokens_joined) simp
      then show ?thesis using fit assms(1) by linarith
    qed
    then show ?thesis by simp
  qed
  have nb: "trim (cs_currentChunk st @ ?sep @ sentence) \<noteq> []"
    using assms(3) by (rule trim_append_nonempty)
  have chunks: "cs_chunks (sentenceStep maxTokens overlapTokens st sentence) = cs_chunks st"
    and current: "cs_currentChunk (sentenceStep maxTokens overlapTokens st sentence)
                  = cs_currentChunk st @ ?sep @ sentence"
    using False by (simp_all add: sentenceStep_def Let_def)
  show ?thesis
    using cur nb assms(5) unfolding bounded_def chunks current by simp
qed

lemma sentenceLoop_bounded:
  assumes "1 \<le> overlapTokens"
      and "\<forall>e \<in> E. solid e"
      and "\<forall>s \<in> set sentences. (estimateTokens s \<le> maxTokens \<or> s \<in> E) \<and> trim s \<noteq> []"
      and "bounded (maxTokens + overlapTokens + 1) E st"
      and "cs_currentChunk st = [] \<or> trim (cs_currentChunk st) \<noteq> []"
  shows "bounded (maxTokens + overlapTokens + 1) E
           (foldl (sentenceStep maxTokens overlapTokens) st sentences)"
  using assms(3-5)
proof (induction sentences arbitrary: st)
  case Nil
  then show ?case by simp
next
  case (Cons s sentences)
  have step: "bounded (maxTokens + overlapTokens + 1) E (sentenceStep maxTokens overlapTokens st s)
            \<and> trim (cs_currentChunk (sentenceStep maxTokens overlapTokens st s)) \<noteq> []"
    using Cons.prems assms(2) by (intro sentenceStep_bounded[OF assms(1)]) simp_all
  show ?case
    using Cons.IH[of "sentenceStep maxTokens overlapTokens st s"] Cons.prems(1) step by simp
qed

lemma paragraphStep_bounded:
  assumes "1 \<le> overlapTokens"
      and "\<forall>e \<in> E. solid e"
      and "estimateTokens paragraph > maxTokens \<longrightarrow>
           (\<forall>s \<in> set (splitIntoSentences paragraph). estimateTokens s \<le> maxTokens \<or> s \<in> E)"
      and "bounded (maxTokens + overlapTokens + 1) E st"
  shows "bounded (maxTokens + overlapTokens + 1) E
           (paragraphStep maxTokens overlapTokens st paragraph)"
proof -
  let ?b = "maxTokens + overlapTokens + 1"
  let ?cur = "cs_currentChunk st"
  consider (big) "estimateTokens paragraph > maxTokens"
    | (flush) "\<not> estimateTokens paragraph > maxTokens"
              "estimateTokens ?cur + estimateTokens paragraph > maxTokens"
    | (append) "\<not> estimateTokens paragraph > maxTokens"
               "\<not> estimateTokens ?cur + estimateTokens paragraph > maxTokens"
    by blast
  then show ?thesis
  proof cases
    case big
    define flushed where "flushed =
       (if trim ?cur \<noteq> []
        then (pushChunk st (estimateTokens ?cur))\<lparr> cs_currentChunk := [] \<rparr>
        else st)"
    define start where "start =
       flushed\<lparr> cs_currentChunk := [], cs_currentStartChar := cs_charOffset flushed \<rparr>"
    define inner where "inner =
       foldl (sentenceStep maxTokens overlapTokens) start (splitIntoSentences paragraph)"
    have fl: "bounded ?b E flushed"
      using pushChunk_bounded[OF assms(2,4)] assms(4)
      by (simp add: flushed_def bounded_def)
    have st: "bounded ?b E start" "cs_currentChunk start = []"
      using fl by (simp_all add: start_def bounded_def)
    have small: "\<forall>s \<in> set (splitIntoSentences paragraph).
                  (estimateTokens s \<le> maxTokens \<or> s \<in> E) \<and> trim s \<noteq> []"
      using assms(3) big splitIntoSentences_solid solid_nonblank by blast
    have inn: "bounded ?b E inner"
      unfolding inner_def using st
      by (intro sentenceLoop_bounded[OF assms(1,2) small]) simp_all
    have res: "paragraphStep maxTokens overlapTokens st paragraph =
        (if trim (cs_currentChunk inner) \<noteq> [] then inner
         else inner\<lparr> cs_currentChunk := cs_currentChunk flushed,
                     cs_currentStartChar := cs_currentStartChar flushed \<rparr>)"
      using big unfolding paragraphStep_def Let_def inner_def start_def flushed_def by simp
    show ?thesis
      using inn fl unfolding res by (simp add: bounded_def)
  next
    case flush
    let ?ov = "getOverlapText ?cur overlapTokens"
    let ?pushed = "(if trim ?cur \<noteq> [] then pushChunk st (estimateTokens ?cur) else st)"
    have "estimateTokens (?ov @ ''\<newline>\<newline>'' @ paragraph)
            \<le> overlapTokens + estimateTokens paragraph + 1"
      using getOverlapText_length[OF assms(1)] by (intro estimateTokens_seeded) simp_all
    then have cur: "estimateTokens (?ov @ ''\<newline>\<newline>'' @ paragraph) \<le> ?b"
      using flush(1) by linarith
    have pushed: "bounded ?b E ?pushed"
      using pushChunk_bounded[OF assms(2,4)] assms(4) by simp
    have chunks: "cs_chunks (paragraphStep maxTokens overlapTokens st paragraph)
                    = cs_chunks ?pushed"
      and current: "cs_currentChunk (paragraphStep maxTokens overlapTokens st paragraph)
                    = ?ov @ ''\<newline>\<newline>'' @ paragraph"
      using flush by (simp_all add: paragraphStep_def Let_def)
    show ?thesis
      using cur pushed unfolding bounded_def chunks current by simp
  next
    case append
    let ?sep = "(if ?cur \<noteq> [] then ''\<newline>\<newline>'' else [])"
    have "estimateTokens (?cur @ ?sep @ paragraph)
            \<le> estimateTokens ?cur + estimateTokens paragraph + 1"
      by (intro estimateTokens_joined) simp
    then have cur: "estimateTokens (?cur @ ?sep @ paragraph) \<le> ?b"
      using append(2) assms(1) by linarith
    have chunks: "cs_chunks (paragraphStep maxTokens overlapTokens st paragraph) = cs_chunks st"
      and current: "cs_currentChunk (paragraphStep maxTokens overlapTokens st paragraph)
                    = ?cur @ ?sep @ paragraph"
      using append by (simp_all add: paragraphStep_def Let_def)
    show ?thesis
      using cur assms(4) unfolding bounded_def chunks current by simp
  qed
qed

lemma paragraphLoop_bounded:
  assumes "1 \<le> overlapTokens"
      and "\<forall>e \<in> E. solid e"
      and "\<forall>p \<in> set paragraphs. estimateTokens p > maxTokens \<longrightarrow>
             (\<forall>s \<in> set (splitIntoSentences p). estimateTokens s \<le> maxTokens \<or> s \<in> E)"
      and "bounded (maxTokens + overlapTokens + 1) E st"
  shows "bounded (maxTokens + overlapTokens + 1) E
           (foldl (paragraphStep maxTokens overlapTokens) st paragraphs)"
  using assms(3,4)
proof (induction paragraphs arbitrary: st)
  case Nil
  then show ?case by simp
next
  case (Cons p paragraphs)
  have "bounded (maxTokens + overlapTokens + 1) E (paragraphStep maxTokens overlapTokens st p)"
    using Cons.prems by (intro paragraphStep_bounded[OF assms(1,2)]) simp_all
  then show ?case using Cons.IH Cons.prems(1) by simp
qed

lemma finishSection_bound:
  assumes "\<forall>e \<in> E. solid e" and "bounded b E st"
  shows "\<forall>c \<in> set (finishSection minTokens st).
           sc_tokenEstimate c \<le> b + max 0 minTokens \<or> (\<exists>e \<in> E. sublist e (sc_content c))"
proof -
  let ?cur = "cs_currentChunk st"
  let ?ok = "\<lambda>c. sc_tokenEstimate c \<le> b + max 0 minTokens \<or> (\<exists>e \<in> E. sublist e (sc_content c))"
  have old: "\<forall>c \<in> set (cs_chunks st). ?ok c"
    using assms(2) by (auto simp: bounded_def)
  have push: "\<forall>c \<in> set (cs_chunks (pushChunk st (estimateTokens ?cur))). ?ok c"
    if "trim ?cur \<noteq> []"
    using pushChunk_bounded[OF assms that] by (fastforce simp: bounded_def)
  have merged: "\<forall>c \<in> set (mergeTail (cs_chunks st) st). ?ok c"
    if short: "estimateTokens ?cur < minTokens" and ne: "cs_chunks st \<noteq> []"
  proof -
    let ?last = "last (cs_chunks st)"
    let ?content = "sc_content ?last @ ''\<newline>\<newline>'' @ trim ?cur"
    have lastIn: "?last \<in> set (cs_chunks st)" using ne by simp
    have new: "estimateTokens ?content \<le> b + max 0 minTokens \<or> (\<exists>e \<in> E. sublist e ?content)"
    proof (cases "\<exists>e \<in> E. sublist e (sc_content ?last)")
      case True
      then show ?thesis by (auto intro: sublist_in_left)
    next
      case False
      with lastIn assms(2) have "estimateTokens (sc_content ?last) \<le> b"
        by (auto simp: bounded_def)
      moreover have "estimateTokens (trim ?cur) \<le> estimateTokens ?cur"
        by (intro estimateTokens_mono trim_len)
      moreover have "estimateTokens ?content
                       \<le> estimateTokens (sc_content ?last) + estimateTokens (trim ?cur) + 1"
        by (intro estimateTokens_joined) simp
      ultimately show ?thesis using short by linarith
    qed
    have "c \<in> set (butlast (cs_chunks st)) \<Longrightarrow> ?ok c" for c
      using old by (auto dest: in_set_butlastD)
    then show ?thesis using new by (auto simp: mergeTail_def Let_def)
  qed
  show ?thesis
  proof (cases "trim ?cur \<noteq> [] \<and> estimateTokens ?cur \<ge> minTokens")
    case True
    then show ?thesis using push by (simp add: finishSection_def)
  next
    case False
    show ?thesis
    proof (cases "trim ?cur \<noteq> []")
      case blank: False
      then show ?thesis using old by (simp add: finishSection_def)
    next
      case True
      with False have short: "estimateTokens ?cur < minTokens" by simp
      show ?thesis
      proof (cases "cs_chunks st = []")
        case True
        then show ?thesis using push \<open>trim ?cur \<noteq> []\<close> short by (simp add: finishSection_def)
      next
        case ne: False
        then show ?thesis
          using merged[OF short ne] \<open>trim ?cur \<noteq> []\<close> short by (simp add: finishSection_def)
      qed
    qed
  qed
qed

lemma chunkSection_bound:
  assumes "1 \<le> overlapTokens"
      and "\<forall>e \<in> E. solid e"
      and "\<forall>p \<in> set (splitIntoParagraphs part). estimateTokens p > maxTokens \<longrightarrow>
             (\<forall>s \<in> set (splitIntoSentences p). estimateTokens s \<le> maxTokens \<or> s \<in> E)"
  shows "\<forall>c \<in> set (chunkSection part maxTokens minTokens overlapTokens).
           sc_tokenEstimate c \<le> maxTokens + overlapTokens + 1 + max 0 minTokens
           \<or> (\<exists>e \<in> E. sublist e (sc_content c))"
proof -
  have "bounded (maxTokens + overlapTokens + 1) E
          \<lparr> cs_chunks = [], cs_currentChunk = [], cs_currentStartChar = 0, cs_charOffset = 0 \<rparr>"
    by (simp add: bounded_def)
  from paragraphLoop_bounded[OF assms(1,2,3) this]
  show ?thesis unfolding chunkSection_def by (rule finishSection_bound[OF assms(2)])
qed

lemma withIndex_keeps:
  "c \<in> set (withIndex start charOffset sectionChunks)
     \<Longrightarrow> \<exists>d \<in> set sectionChunks. sc_tokenEstimate c = sc_tokenEstimate d
                                  \<and> sc_content c = sc_content d"
  by (auto simp: withIndex_def dest: set_zip_rightD)

lemma addSection_keeps:
  assumes "\<forall>c \<in> set (fst acc). P (sc_tokenEstimate c) (sc_content c)"
      and "\<forall>part \<in> set sections.
             \<forall>d \<in> set (chunkSection part maxTokens minTokens overlapTokens).
               P (sc_tokenEstimate d) (sc_content d)"
  shows "\<forall>c \<in> set (fst (foldl (addSection maxTokens minTokens overlapTokens) acc sections)).
           P (sc_tokenEstimate c) (sc_content c)"
  using assms
proof (induction sections arbitrary: acc)
  case Nil
  then show ?case by simp
next
  case (Cons part sections)
  obtain chunks charOffset where acc: "acc = (chunks, charOffset)" by (cases acc)
  have "\<forall>c \<in> set (fst (addSection maxTokens minTokens overlapTokens acc part)).
          P (sc_tokenEstimate c) (sc_content c)"
    using Cons.prems acc by (auto simp: addSection_def dest!: withIndex_keeps)
  from Cons.IH[OF this] Cons.prems(2) show ?case by simp
qed

text \<open>
  With \<open>overlapTokens = 0\<close> the overlap text is the whole chunk before
  (\<open>text.slice(-0)\<close> is \<open>text.slice(0)\<close>), so every new chunk repeats all that came
  before it and no bound in terms of the options holds.
\<close>

lemma chunkText_zero_overlap:
  "map sc_tokenEstimate
     (chunkText ''aaaa\<newline>\<newline>bbbb\<newline>\<newline>cccc\<newline>\<newline>dddd'' noOverlapOptions) = [3, 4, 6]
   \<and> sentencesMet ''aaaa\<newline>\<newline>bbbb\<newline>\<newline>cccc\<newline>\<newline>dddd'' 2 = []"
  by code_simp

text \<open>
  Claim C6, as stated, fails. Two paragraphs of four characters are estimated at one
  token each, so with \<open>maxTokens = 2\<close> the second is appended to the first; the
  chunk of ten characters that results is estimated at three tokens. It consists of
  two sentences, neither of which is above \<open>maxTokens\<close>.
\<close>

theorem chunkText_over_maxTokens:
  "map (\<lambda>c. (sc_content c, sc_tokenEstimate c)) (chunkText ''aaaa\<newline>\<newline>bbbb'' tightOptions)
     = [(''aaaa\<newline>\<newline>bbbb'', 3)]
   \<and> maxTokensOf tightOptions = 2
   \<and> splitIntoSentences ''aaaa\<newline>\<newline>bbbb'' = [''aaaa'', ''bbbb'']
   \<and> map estimateTokens [''aaaa'', ''bbbb''] = [1, 1]"
  by code_simp

text \<open>
  Claim C6, amended. When \<open>overlapTokens\<close> is at least one, every chunk of
  \<open>chunkText\<close> has a \<open>tokenEstimate\<close> of at most
  \<open>maxTokens + overlapTokens + 1 + max 0 minTokens\<close>, except for chunks whose content
  contains a sentence that alone is estimated above \<open>maxTokens\<close>. The overlap text is
  at most \<open>4 * overlapTokens\<close> characters, a separator is at most one token, and the
  merged tail is below \<open>minTokens\<close>.
\<close>

theorem chunkText_bound:
  assumes "1 \<le> overlapTokensOf options"
  shows "\<forall>c \<in> set (chunkText t options).
           sc_tokenEstimate c
             \<le> maxTokensOf options + overlapTokensOf options + 1 + max 0 (minTokensOf options)
           \<or> holdsOversized (maxTokensOf options) (sentencesMet t (maxTokensOf options))
                (sc_content c)"
proof -
  let ?M = "maxTokensOf options" and ?m = "minTokensOf options" and ?O = "overlapTokensOf options"
  let ?b = "?M + ?O + 1 + max 0 ?m"
  define E where "E = {s \<in> set (sentencesMet t ?M). estimateTokens s > ?M}"
  let ?P = "\<lambda>tokens content. tokens \<le> ?b \<or> (\<exists>e \<in> E. sublist e content)"
  have solidE: "\<forall>e \<in> E. solid e"
    using splitIntoSentences_solid by (auto simp: E_def sentencesMet_def)
  have sections: "\<forall>part \<in> set (sectionsOf (cleanText t)).
                    \<forall>d \<in> set (chunkSection part ?M ?m ?O). ?P (sc_tokenEstimate d) (sc_content d)"
  proof
    fix part assume part: "part \<in> set (sectionsOf (cleanText t))"
    have "\<forall>p \<in> set (splitIntoParagraphs part). estimateTokens p > ?M \<longrightarrow>
            (\<forall>s \<in> set (splitIntoSentences p). estimateTokens s \<le> ?M \<or> s \<in> E)"
      using part by (fastforce simp: E_def sentencesMet_def)
    from chunkSection_bound[OF assms solidE this]
    show "\<forall>d \<in> set (chunkSection part ?M ?m ?O). ?P (sc_tokenEstimate d) (sc_content d)" .
  qed
  have all: "\<forall>c \<in> set (chunkText t options). ?P (sc_tokenEstimate c) (sc_content c)"
  proof (cases "cleanText t = []")
    case True
    then show ?thesis by (simp add: chunkText_def)
  next
    case False
    show ?thesis
    proof (cases "testRegex False headerPattern (cleanText t)")
      case True
      have "\<forall>c \<in> set (fst (foldl (addSection ?M ?m ?O) ([], 0) (sectionsOf (cleanText t)))).
              ?P (sc_tokenEstimate c) (sc_content c)"
        using sections by (intro addSection_keeps) simp_all
      then show ?thesis using False True by (simp add: chunkText_def Let_def)
    next
      case noHeader: False
      then have "sectionsOf (cleanText t) = [cleanText t]" by (simp add: sectionsOf_def)
      with sections
      have "\<forall>d \<in> set (chunkSection (cleanText t) ?M ?m ?O). ?P (sc_tokenEstimate d) (sc_content d)"
        by simp
      then show ?thesis
        using False noHeader by (auto simp: chunkText_def Let_def dest!: withIndex_keeps)
    qed
  qed
  show ?thesis
  proof
    fix c assume "c \<in> set (chunkText t options)"
    with all have "?P (sc_tokenEstimate c) (sc_content c)" by blast
    then show "sc_tokenEstimate c \<le> ?b
               \<or> holdsOversized ?M (sentencesMet t ?M) (sc_content c)"
      by (auto simp: E_def holdsOversized_def list_ex_iff includesStr_sublist)
  qed
qed

theorem chunkText_bound_witness:
  "map sc_tokenEstimate (chunkText manualText routerOptions) = [2, 19, 6, 4]
   \<and> map (\<lambda>c. holdsOversized 6 (sentencesMet manualText 6) (sc_content c))
        (chunkText manualText routerOptions) = [False, True, False, False]
   \<and> list_all (\<lambda>c. sc_tokenEstimate c \<le> 11
                     \<or> holdsOversized 6 (sentencesMet manualText 6) (sc_content c))
        (chunkText manualText routerOptions)"
proof -
  have options: "maxTokensOf routerOptions = 6" "minTokensOf routerOptions = 3"
    "overlapTokensOf routerOptions = 1"
    by (simp_all add: routerOptions_def maxTokensOf_def minTokensOf_def overlapTokensOf_def)
  have estimates: "map sc_tokenEstimate (chunkText manualText routerOptions) = [2, 19, 6, 4]"
    by code_simp
  have exempt: "map (\<lambda>c. holdsOversized 6 (sentencesMet manualText 6) (sc_content c))
                  (chunkText manualText routerOptions) = [False, True, False, False]"
    by code_simp
  have "list_all (\<lambda>c. sc_tokenEstimate c \<le> 11
                       \<or> holdsOversized 6 (sentencesMet manualText 6) (sc_content c))
          (chunkText manualText routerOptions)"
    using chunkText_bound[of routerOptions manualText]
    by (simp add: options list_all_iff)
  then show ?thesis using estimates exempt by simp
qed
end
